(* ===== verification/Enlarge_Prelude.thy ===== *)
theory Enlarge_Prelude
  imports Main "HOL-Library.Monad_Syntax"
begin

text \<open>
  Shared vocabulary of the development. The C++ layer walks flat buffers
  (\<open>Blob::cpu_data\<close>, \<open>Blob::mutable_cpu_diff\<close>) with raw pointers and
  \<open>for (int i = 0; i < n; ++i)\<close> loops. Here a buffer is a list, a read or write
  through a pointer is a bounds-checked access that fails (\<open>None\<close>) out of range,
  a counted loop is \<open>for_loop\<close>, and the effect of a loop of writes is described by
  \<open>ovr\<close>, the buffer overwritten on a set of positions by a value function.
\<close>

type_synonym 'a buffer = "'a list"

named_theorems ovr_simps \<open>rewriting of overwritten buffers\<close>
named_theorems index_bounds \<open>bounds on the flattened indices\<close>

section \<open>Checked buffer accesses\<close>

text \<open>\<open>p[i]\<close> as an rvalue: undefined behaviour out of range, modelled as failure.\<close>

definition rd :: "'a buffer \<Rightarrow> nat \<Rightarrow> 'a option" where
  "rd xs i = (if i < length xs then Some (xs ! i) else None)"

text \<open>\<open>p[i] = v\<close>: the buffer updated at \<open>i\<close>, failure out of range.\<close>

definition wr :: "'a buffer \<Rightarrow> nat \<Rightarrow> 'a \<Rightarrow> 'a buffer option" where
  "wr xs i v = (if i < length xs then Some (xs[i := v]) else None)"

section \<open>Counted loops\<close>

text \<open>
  \<open>for_loop n f s\<close> runs \<open>f 0, f 1, \<dots>, f (n - 1)\<close> on the state in this order,
  stopping at the first failure: the C++ loop \<open>for (int i = 0; i < n; ++i) body(i)\<close>.
\<close>

primrec for_loop :: "nat \<Rightarrow> (nat \<Rightarrow> 's \<Rightarrow> 's option) \<Rightarrow> 's \<Rightarrow> 's option" where
  "for_loop 0 f s = Some s"
| "for_loop (Suc n) f s = for_loop n f s \<bind> f n"

text \<open>
  The state both passes thread through their loops: the offsets of the two data
  pointers the code advances (\<open>bottom_data\<close>/\<open>bottom_diff\<close> and
  \<open>top_data\<close>/\<open>top_diff\<close>) and the buffer being written.
\<close>

record 'a ptr_state =
  b_off :: nat
  t_off :: nat
  buf :: "'a buffer"

section \<open>Overwritten buffers\<close>

definition ovr :: "(nat \<Rightarrow> bool) \<Rightarrow> (nat \<Rightarrow> 'a) \<Rightarrow> 'a buffer \<Rightarrow> 'a buffer" where
  "ovr P F xs = map (\<lambda>k. if P k then F k else xs ! k) [0..<length xs]"

section \<open>Lemmas on accesses\<close>

lemma rd_Some [simp]: "i < length xs \<Longrightarrow> rd xs i = Some (xs ! i)"
  by (simp add: rd_def)

lemma wr_Some [simp]: "i < length xs \<Longrightarrow> wr xs i v = Some (xs[i := v])"
  by (simp add: wr_def)

lemma rd_None [simp]: "length xs \<le> i \<Longrightarrow> rd xs i = None"
  by (simp add: rd_def)

lemma wr_None [simp]: "length xs \<le> i \<Longrightarrow> wr xs i v = None"
  by (simp add: wr_def)

section \<open>Lemmas on overwritten buffers\<close>

lemma length_ovr [simp, ovr_simps]: "length (ovr P F xs) = length xs"
  by (simp add: ovr_def)

lemma nth_ovr [simp, ovr_simps]:
  "k < length xs \<Longrightarrow> ovr P F xs ! k = (if P k then F k else xs ! k)"
  by (simp add: ovr_def)

lemma ovr_nothing [ovr_simps]: "ovr (\<lambda>_. False) F xs = xs"
  by (rule nth_equalityI) simp_all

lemma ovr_update [ovr_simps]:
  "(ovr P F xs)[k := F k] = ovr (\<lambda>j. P j \<or> j = k) F xs"
proof (rule nth_equalityI)
  fix i assume "i < length ((ovr P F xs)[k := F k])"
  then show "(ovr P F xs)[k := F k] ! i = ovr (\<lambda>j. P j \<or> j = k) F xs ! i"
    by (cases "i = k") (simp_all add: nth_list_update)
qed simp

lemma update_as_ovr: "xs[k := F k] = ovr (\<lambda>j. j = k) F xs"
  by (rule nth_equalityI) (auto simp: nth_list_update)

lemma ovr_ovr [ovr_simps]: "ovr P F (ovr Q F xs) = ovr (\<lambda>j. P j \<or> Q j) F xs"
  by (rule nth_equalityI) auto

lemma ovr_cong:
  "(\<And>j. j < length xs \<Longrightarrow> P j \<longleftrightarrow> Q j) \<Longrightarrow>
   (\<And>j. j < length xs \<Longrightarrow> Q j \<Longrightarrow> F j = G j) \<Longrightarrow> ovr P F xs = ovr Q G xs"
  by (rule nth_equalityI) auto

lemma ovr_all:
  "(\<And>j. j < length xs \<Longrightarrow> P j) \<Longrightarrow> ovr P F xs = map F [0..<length xs]"
  by (rule nth_equalityI) auto

section \<open>Lemmas on counted loops\<close>

text \<open>A loop whose every step is known: the state after \<open>i\<close> steps is \<open>S i\<close>.\<close>

lemma for_loop_trace:
  assumes "\<And>i. i < n \<Longrightarrow> f i (S i) = Some (S (Suc i))"
  shows "for_loop n f (S 0) = Some (S n)"
  using assms by (induction n) auto

text \<open>A loop that never runs, and a loop whose body does nothing.\<close>

lemma for_loop_0_fun [simp]: "for_loop 0 f = Some"
  by (rule ext) simp

lemma for_loop_nop [simp]: "for_loop n (\<lambda>_. Some) s = Some s"
  by (induction n) simp_all

text \<open>One step off the end of a loop of numeral length, to run a loop on concrete values.\<close>

lemma for_loop_pos: "0 < n \<Longrightarrow> for_loop n f s = for_loop (n - 1) f s \<bind> f (n - 1)"
  by (cases n) simp_all

text \<open>A loop accumulating checked reads: the \<open>sum += p[idx]\<close> loop.\<close>

lemma for_loop_sum:
  assumes "\<And>i. i < n \<Longrightarrow> idx i < length xs"
  shows "for_loop n (\<lambda>i acc. rd xs (idx i) \<bind> (\<lambda>x. Some (acc + x))) a =
         Some (a + (\<Sum>i<n. xs ! idx i))"
  using assms by (induction n) (simp_all add: add.assoc)

text \<open>A loop that keeps an invariant at every step never fails.\<close>

lemma for_loop_inv:
  assumes "\<And>i s. i < n \<Longrightarrow> P i s \<Longrightarrow> \<exists>s'. f i s = Some s' \<and> P (Suc i) s'"
    and "P 0 s"
  shows "\<exists>s'. for_loop n f s = Some s' \<and> P n s'"
  using assms by (induction n) fastforce+

text \<open>
  A loop whose step \<open>i\<close> overwrites the positions \<open>P i\<close> by one value function
  overwrites their union: this covers the scattered writes of both passes.
\<close>

lemma for_loop_ovr:
  assumes "\<And>i ys. i < n \<Longrightarrow> length ys = length xs \<Longrightarrow> f i ys = Some (ovr (P i) F ys)"
  shows "for_loop n f xs = Some (ovr (\<lambda>j. \<exists>i<n. P i j) F xs)"
  using assms
proof (induction n)
  case 0
  then show ?case by (simp add: ovr_nothing)
next
  case (Suc n)
  then have "for_loop n f xs = Some (ovr (\<lambda>j. \<exists>i<n. P i j) F xs)" by simp
  moreover have "(\<lambda>j. P n j \<or> (\<exists>i<n. P i j)) = (\<lambda>j. \<exists>i<Suc n. P i j)"
    by (auto simp: less_Suc_eq)
  ultimately show ?case using Suc.prems by (simp add: ovr_ovr)
qed

text \<open>Contiguous blocks of length \<open>L\<close> laid end to end form one block.\<close>

lemma blocks_union:
  "(\<exists>i<n. b + i * L \<le> j \<and> j < b + i * L + L) \<longleftrightarrow> b \<le> j \<and> j < b + n * (L::nat)"
proof
  assume "\<exists>i<n. b + i * L \<le> j \<and> j < b + i * L + L"
  then obtain i where i: "i < n" "b + i * L \<le> j" "j < b + i * L + L" by blast
  have "Suc i * L \<le> n * L"
    using i(1) by (intro mult_le_mono1) simp
  with i(2,3) show "b \<le> j \<and> j < b + n * L" by simp
next
  assume a: "b \<le> j \<and> j < b + n * L"
  define k where "k = j - b"
  define i where "i = k div L"
  have L: "0 < L" using a by (cases L) auto
  have k: "k = i * L + k mod L" unfolding i_def by simp
  have "k mod L < L" using L by simp
  have "k < n * L" using a unfolding k_def by linarith
  then have "i < n" unfolding i_def using L by (simp add: div_less_iff_less_mult)
  moreover have "b + i * L \<le> j" "j < b + i * L + L"
    using a k \<open>k mod L < L\<close> unfolding k_def by linarith+
  ultimately show "\<exists>i<n. b + i * L \<le> j \<and> j < b + i * L + L" by blast
qed

lemma for_loop_blocks:
  assumes "\<And>i ys. i < n \<Longrightarrow> length ys = length xs \<Longrightarrow>
             f i ys = Some (ovr (\<lambda>j. b + i * L \<le> j \<and> j < b + i * L + L) F ys)"
  shows "for_loop n f xs = Some (ovr (\<lambda>j. b \<le> j \<and> j < b + n * L) F xs)"
  using for_loop_ovr [of n xs f "\<lambda>i j. b + i * L \<le> j \<and> j < b + i * L + L" F] assms
  by (simp add: blocks_union)

section \<open>Arithmetic on flattened indices\<close>

lemma mod_mult_add_less [index_bounds]:
  "a < (n::nat) \<Longrightarrow> b < m \<Longrightarrow> a * m + b < n * m"
proof -
  assume "a < n" "b < m"
  then have "a * m + b < a * m + m" by simp
  also have "\<dots> = Suc a * m" by simp
  also have "\<dots> \<le> n * m" using \<open>a < n\<close> by (intro mult_le_mono1) simp
  finally show ?thesis .
qed

lemma div_mult_mod_split:
  "(0::nat) < m \<Longrightarrow> b < m \<Longrightarrow> (a * m + b) div m = a \<and> (a * m + b) mod m = b"
  by simp


text \<open>A slab of a flat buffer: its position, its offset, the decoding of a flat index.\<close>

lemma group_slab_bound:
  "i < (G::nat) \<Longrightarrow> i * q + (q + (if i = G - 1 then e else 0)) \<le> G * q + e"
proof -
  assume i: "i < G"
  then have "Suc i * q \<le> G * q" by (intro mult_le_mono1) simp
  moreover have "i = G - 1 \<Longrightarrow> Suc i * q = G * q" using i by simp
  ultimately show ?thesis by (cases "i = G - 1") simp_all
qed

lemma slab_decomp:
  assumes "0 < (Q::nat)" "t + i * Q \<le> j" "j < t + i * Q + Q"
  shows "(j - t) div Q = i" "(j - t) mod Q = j - (t + i * Q)"
proof -
  have "j - t = i * Q + (j - (t + i * Q))" "j - (t + i * Q) < Q" using assms by simp_all
  with div_mult_mod_split [OF assms(1) this(2)]
  show "(j - t) div Q = i" "(j - t) mod Q = j - (t + i * Q)" by simp_all
qed

lemma decode_mod_div:
  "(j mod (G * Q)) div Q = j div Q mod (G::nat)"
  "(j mod (G * Q)) mod Q = j mod (Q::nat)"
proof -
  have e: "j mod (G * Q) = Q * (j div Q mod G) + j mod Q"
    using mod_mult2_eq [of j Q G] by (simp add: mult.commute)
  show "(j mod (G * Q)) div Q = j div Q mod G"
    by (cases "Q = 0") (simp_all add: e)
  show "(j mod (G * Q)) mod Q = j mod Q"
    by (simp add: e)
qed

lemma batch_slab_le: "m < (N::nat) \<Longrightarrow> m * K + K \<le> N * K"
  using mult_le_mono1 [of "Suc m" N K] by simp

lemma offset_cover: "(\<exists>k. j = b + k \<and> k < n) \<longleftrightarrow> b \<le> j \<and> j < b + (n::nat)"
  by (auto intro: exI [of _ "j - b"])

lemma slab_min_div:
  assumes i: "i < (G::nat)" and r: "r < q"
    and k: "i * q \<le> k" "k < i * q + q + (if i = G - 1 then r else 0)"
  shows "min (k div q) (G - 1) = i"
proof (cases "k < i * q + q")
  case True
  have "k div q = i" using slab_decomp(1) [of q 0 i k] r k(1) True by simp
  with i show ?thesis by simp
next
  case False
  with k(2) have last: "i = G - 1" by (auto split: if_splits)
  have "Suc i * q \<le> k" using False by simp
  then have "Suc i * q div q \<le> k div q" by (rule div_le_mono)
  then have "Suc i \<le> k div q" using r by simp
  with last i show ?thesis by simp
qed

text \<open>
  A block written next to an overwritten prefix extends it; and a batch loop whose
  iteration \<open>m\<close> writes the \<open>m\<close>-th slab of \<open>K\<close> positions and advances both
  pointers by fixed amounts overwrites the first \<open>N*K\<close> positions.
\<close>

lemma ovr_block_extend:
  assumes "u \<le> v" and "\<And>j. a + u \<le> j \<Longrightarrow> j < a + v \<Longrightarrow> F j = V j"
  shows "ovr (\<lambda>j. a + u \<le> j \<and> j < a + v) F (ovr (\<lambda>j. a \<le> j \<and> j < a + u) V xs) =
         ovr (\<lambda>j. a \<le> j \<and> j < a + (v::nat)) V xs"
proof -
  have "ovr (\<lambda>j. a + u \<le> j \<and> j < a + v) F (ovr (\<lambda>j. a \<le> j \<and> j < a + u) V xs) =
        ovr (\<lambda>j. a + u \<le> j \<and> j < a + v) V (ovr (\<lambda>j. a \<le> j \<and> j < a + u) V xs)"
    using assms(2) by (intro ovr_cong) auto
  also have "\<dots> = ovr (\<lambda>j. a \<le> j \<and> j < a + v) V xs"
    unfolding ovr_ovr using assms(1) by (intro ovr_cong) auto
  finally show ?thesis .
qed

lemma for_loop_batches:
  fixes xs :: "'a list"
  assumes step: "\<And>m st. m < N \<Longrightarrow> b_off st = m * P \<Longrightarrow> t_off st = m * Q \<Longrightarrow>
      length (buf st) = length xs \<Longrightarrow>
      g m st = Some (st\<lparr>b_off := m * P + P, t_off := m * Q + Q,
                        buf := ovr (\<lambda>j. m * K \<le> j \<and> j < m * K + K) (F m) (buf st)\<rparr>)"
  shows "for_loop N g \<lparr>b_off = 0, t_off = 0, buf = xs\<rparr> =
         Some \<lparr>b_off = N * P, t_off = N * Q, buf = ovr (\<lambda>j. j < N * K) (\<lambda>j. F (j div K) j) xs\<rparr>"
proof -
  define S where "S m = \<lparr>b_off = m * P, t_off = m * Q,
                         buf = ovr (\<lambda>j. 0 \<le> j \<and> j < 0 + m * K) (\<lambda>j. F (j div K) j) xs\<rparr>" for m
  have "g m (S m) = Some (S (Suc m))" if m: "m < N" for m
  proof -
    have "ovr (\<lambda>j. 0 + m * K \<le> j \<and> j < 0 + (m * K + K)) (F m)
            (ovr (\<lambda>j. 0 \<le> j \<and> j < 0 + m * K) (\<lambda>j. F (j div K) j) xs) =
          ovr (\<lambda>j. 0 \<le> j \<and> j < 0 + (m * K + K)) (\<lambda>j. F (j div K) j) xs"
    proof (rule ovr_block_extend)
      fix j assume "0 + m * K \<le> j" "j < 0 + (m * K + K)"
      moreover from this have "0 < K" by simp
      ultimately have "j div K = m" using slab_decomp(1) [of K 0 m j] by simp
      then show "F m j = F (j div K) j" by simp
    qed simp
    then show ?thesis using step [OF m, of "S m"] by (simp add: S_def add.commute)
  qed
  then have "for_loop N g (S 0) = Some (S N)" by (rule for_loop_trace)
  moreover have "S 0 = \<lparr>b_off = 0, t_off = 0, buf = xs\<rparr>" by (simp add: S_def ovr_nothing)
  ultimately show ?thesis by (simp add: S_def)
qed

end
