(* ===== verification/Enlarge_Config.thy ===== *)
theory Enlarge_Config
  imports Enlarge_Prelude
begin

text \<open>
  Shapes, the layer's cached parameters and their derivation:
  \<open>EnlargeLayer::LayerSetup\<close> (validation and first derivation) and
  \<open>EnlargeLayer::Reshape\<close> (re-derivation and the shape of the top blob), lines 7--40
  of \<open>src/enlarge_layer.cpp\<close>. A failed \<open>CHECK_*\<close> aborts the process and an
  integer division by zero traps; both are the \<open>Inl\<close> branch of a sum type.
\<close>

section \<open>Blobs and the layer object\<close>

text \<open>The four extents of a Caffe blob: \<open>num()\<close>, \<open>channels()\<close>, \<open>height()\<close>, \<open>width()\<close>.\<close>

record blob_shape =
  num :: nat
  channels :: nat
  height :: nat
  width :: nat

text \<open>A blob with its \<open>data\<close> and \<open>diff\<close> buffers, stored row-major, width fastest.\<close>

record 'a blob = blob_shape +
  data :: "'a buffer"
  diff :: "'a buffer"

text \<open>\<open>Blob::count()\<close> and \<open>Blob::count(2)\<close>, the size of one spatial map.\<close>

definition count :: "'b blob_shape_scheme \<Rightarrow> nat" where
  "count b = num b * channels b * height b * width b"

definition count2 :: "'b blob_shape_scheme \<Rightarrow> nat" where
  "count2 b = height b * width b"

text \<open>
  The members of \<open>EnlargeLayer\<close>; \<open>size_param\<close> is
  \<open>layer_param_.enlarge_param().size()\<close>, fixed when the layer is built.
\<close>

record enlarge_layer =
  size_param :: int
  img_size :: nat
  batch :: nat
  ch_ori :: nat
  h_ori :: nat
  w_ori :: nat
  scale :: nat
  group :: nat

text \<open>The ways configuration stops: one per \<open>CHECK\<close>, and the trap of a zero divisor.\<close>

datatype config_error =
    Size_not_positive
  | Division_by_zero
  | Not_multiple
  | Not_square
  | Size_not_greater

section \<open>LayerSetup\<close>

text \<open>
  Lines 8--25, in the order of the code: the size check; \<open>scale = img_size / h_ori\<close>
  (traps when \<open>h_ori = 0\<close>); \<open>group = ch_ori / (scale*scale)\<close> (traps when
  \<open>scale = 0\<close>, i.e. when the size is below the map's height); then the three
  remaining checks. \<open>batch\<close> is not set here.
\<close>

definition LayerSetup :: "enlarge_layer \<Rightarrow> 'b blob_shape_scheme \<Rightarrow> config_error + enlarge_layer" where
  "LayerSetup L bottom =
     (if size_param L \<le> 0 then Inl Size_not_positive
      else
        let img = nat (size_param L); c = channels bottom; h = height bottom; w = width bottom
        in if h = 0 then Inl Division_by_zero
        else
          let sc = img div h
          in if sc * sc = 0 then Inl Division_by_zero
          else
            let g = c div (sc * sc); a = img mod h
            in if a \<noteq> 0 then Inl Not_multiple
            else if h \<noteq> w then Inl Not_square
            else if \<not> h < img then Inl Size_not_greater
            else Inr (L\<lparr>img_size := img, ch_ori := c, h_ori := h, w_ori := w,
                        scale := sc, group := g\<rparr>))"

section \<open>Reshape\<close>

text \<open>
  Lines 28--40: the same derivation without any check, and the top blob reshaped to
  \<open>(batch, group, img_size, img_size)\<close>. \<open>Reshape\<close> runs after a successful
  \<open>LayerSetup\<close>, so the size parameter is positive there.
\<close>

definition Reshape :: "enlarge_layer \<Rightarrow> 'b blob_shape_scheme \<Rightarrow> config_error + enlarge_layer \<times> blob_shape" where
  "Reshape L bottom =
     (let img = nat (size_param L); b = num bottom; c = channels bottom;
          h = height bottom; w = width bottom
      in if h = 0 then Inl Division_by_zero
      else
        let sc = img div h
        in if sc * sc = 0 then Inl Division_by_zero
        else
          let g = c div (sc * sc)
          in Inr (L\<lparr>img_size := img, batch := b, ch_ori := c, h_ori := h, w_ori := w,
                     scale := sc, group := g\<rparr>,
                  \<lparr>num = b, channels = g, height = img, width = img\<rparr>))"

text \<open>
  \<open>Layer::SetUp\<close> of the framework (not in \<open>src/\<close>): \<open>LayerSetUp\<close>, then
  \<open>Reshape\<close>; the spec's \<open>Configure\<close>, returning the output shape.
\<close>

definition Configure :: "enlarge_layer \<Rightarrow> 'b blob_shape_scheme \<Rightarrow> config_error + enlarge_layer \<times> blob_shape" where
  "Configure L bottom = (case LayerSetup L bottom of Inl e \<Rightarrow> Inl e | Inr L' \<Rightarrow> Reshape L' bottom)"

text \<open>The number of left-over input channels, \<open>extra_maps_\<close> of the code (lines 50 and 112).\<close>

definition extra_maps :: "enlarge_layer \<Rightarrow> nat" where
  "extra_maps L = ch_ori L mod (scale L * scale L)"

section \<open>The invariant of a configured layer\<close>

text \<open>
  What a successful configuration establishes between the cached members and the
  bottom blob: the derived values and the three invariants of the spec's section 3.
\<close>

definition layer_ok :: "enlarge_layer \<Rightarrow> 'b blob_shape_scheme \<Rightarrow> bool" where
  "layer_ok L bottom \<longleftrightarrow>
     batch L = num bottom \<and> ch_ori L = channels bottom \<and>
     h_ori L = height bottom \<and> w_ori L = width bottom \<and>
     0 < h_ori L \<and> h_ori L = w_ori L \<and> img_size L mod h_ori L = 0 \<and>
     h_ori L < img_size L \<and>
     scale L = img_size L div h_ori L \<and> group L = ch_ori L div (scale L * scale L)"

text \<open>A top blob of the shape \<open>Reshape\<close> gives, with buffers of that size.\<close>

definition top_ok :: "enlarge_layer \<Rightarrow> 'a blob \<Rightarrow> bool" where
  "top_ok L top_blob \<longleftrightarrow>
     num top_blob = batch L \<and> channels top_blob = group L \<and>
     height top_blob = img_size L \<and> width top_blob = img_size L \<and>
     length (data top_blob) = count top_blob \<and> length (diff top_blob) = count top_blob"

definition bottom_ok :: "enlarge_layer \<Rightarrow> 'a blob \<Rightarrow> bool" where
  "bottom_ok L bottom \<longleftrightarrow>
     layer_ok L bottom \<and> length (data bottom) = count bottom \<and> length (diff bottom) = count bottom"

text \<open>A layer object as constructed, before any setup, with size parameter \<open>S\<close>.\<close>

definition layer0 :: "int \<Rightarrow> enlarge_layer" where
  "layer0 S = \<lparr>size_param = S, img_size = 0, batch = 0, ch_ori = 0, h_ori = 0, w_ori = 0,
                scale = 0, group = 0\<rparr>"

section \<open>Lemmas\<close>
lemma layer_ok_scale:
  assumes "layer_ok L b"
  shows "img_size L = scale L * h_ori L" and "2 \<le> scale L"
proof -
  from assms have h: "0 < h_ori L" "img_size L mod h_ori L = 0" "h_ori L < img_size L"
    and s: "scale L = img_size L div h_ori L"
    by (auto simp: layer_ok_def)
  have "img_size L div h_ori L * h_ori L + img_size L mod h_ori L = img_size L"
    by (rule div_mult_mod_eq)
  with h(2) s show img: "img_size L = scale L * h_ori L"
    by simp
  show "2 \<le> scale L"
  proof (rule ccontr)
    assume "\<not> 2 \<le> scale L"
    then have "scale L \<le> 1" by simp
    then have "scale L * h_ori L \<le> 1 * h_ori L" by (rule mult_le_mono1)
    with img h(3) show False by simp
  qed
qed

lemma layer_ok_channels:
  "layer_ok L b \<Longrightarrow> ch_ori L = group L * (scale L * scale L) + extra_maps L"
  unfolding layer_ok_def extra_maps_def
  using div_mult_mod_eq [of "ch_ori L" "scale L * scale L"] by simp

lemma layer_ok_count2:
  "layer_ok L b \<Longrightarrow> count2 b = h_ori L * w_ori L"
  by (simp add: layer_ok_def count2_def)

lemma extra_maps_less: "layer_ok L b \<Longrightarrow> extra_maps L < scale L * scale L"
  using layer_ok_scale(2) [of L b] by (simp add: extra_maps_def)

lemma LayerSetup_Inr_iff:
  "LayerSetup L b = Inr L' \<longleftrightarrow>
     0 < height b \<and> height b = width b \<and> int (height b) < size_param L \<and>
     nat (size_param L) mod height b = 0 \<and>
     L' = L\<lparr>img_size := nat (size_param L), ch_ori := channels b, h_ori := height b,
            w_ori := width b, scale := nat (size_param L) div height b,
            group := channels b div (nat (size_param L) div height b * (nat (size_param L) div height b))\<rparr>"
proof (cases "0 < height b \<and> height b \<le> nat (size_param L)")
  case True
  then have "0 < nat (size_param L) div height b" by (simp add: div_greater_zero_iff)
  with True show ?thesis
    by (auto simp: LayerSetup_def Let_def)
next
  case False
  then have "height b = 0 \<or> nat (size_param L) div height b = 0" by auto
  then show ?thesis by (auto simp: LayerSetup_def Let_def)
qed

lemma Reshape_after_setup:
  assumes "LayerSetup L b = Inr L1"
  shows "Reshape L1 b = Inr (L1\<lparr>batch := num b\<rparr>,
           \<lparr>num = num b, channels = channels b div (scale L1 * scale L1),
            height = img_size L1, width = img_size L1\<rparr>)"
proof -
  from assms have c: "0 < height b" "int (height b) < size_param L"
    and L1: "L1 = L\<lparr>img_size := nat (size_param L), ch_ori := channels b, h_ori := height b,
            w_ori := width b, scale := nat (size_param L) div height b,
            group := channels b div (nat (size_param L) div height b * (nat (size_param L) div height b))\<rparr>"
    by (simp_all add: LayerSetup_Inr_iff)
  from c have "0 < nat (size_param L) div height b" by (simp add: div_greater_zero_iff)
  with c L1 show ?thesis by (simp add: Reshape_def Let_def)
qed

lemma Configure_Inr:
  "Configure L b = Inr (L', sh) \<longleftrightarrow>
     (\<exists>L1. LayerSetup L b = Inr L1 \<and> L' = L1\<lparr>batch := num b\<rparr> \<and>
        sh = \<lparr>num = num b, channels = channels b div (scale L1 * scale L1),
              height = img_size L1, width = img_size L1\<rparr>)"
  by (auto simp: Configure_def Reshape_after_setup split: sum.splits)

text \<open>
  C13. Shape correctness: a successful configuration (\<open>LayerSetup\<close> then \<open>Reshape\<close>)
  leaves the layer's members consistent with the bottom blob, with every invariant of
  the spec's section 3, and reshapes the top blob to \<open>(N, C div scale\<^sup>2, S, S)\<close>.
\<close>

theorem Configure_layer_ok:
  "Configure L b = Inr (L', sh) \<Longrightarrow> layer_ok L' b \<and> sh = \<lparr>num = num b, channels = group L',
     height = img_size L', width = img_size L'\<rparr> \<and> img_size L' = nat (size_param L)"
  by (auto simp: Configure_Inr LayerSetup_Inr_iff layer_ok_def)


lemma layer_ok_dims:
  assumes "layer_ok L b"
  shows "count2 b = w_ori L * w_ori L" "img_size L = scale L * w_ori L"
    "0 < scale L" "0 < w_ori L" "0 < img_size L"
proof -
  from assms have "h_ori L = w_ori L" "0 < h_ori L" "h_ori L = height b" "w_ori L = width b"
    by (simp_all add: layer_ok_def)
  moreover note layer_ok_scale [OF assms]
  ultimately show "count2 b = w_ori L * w_ori L" "img_size L = scale L * w_ori L"
    "0 < scale L" "0 < w_ori L" "0 < img_size L"
    by (simp_all add: count2_def)
qed

lemma count_bottom: "bottom_ok L bottom \<Longrightarrow> length (data bottom) = batch L * ch_ori L * count2 bottom"
  by (simp add: bottom_ok_def layer_ok_def count_def count2_def)

lemma count_top: "top_ok L t \<Longrightarrow> length (data t) = batch L * group L * (img_size L * img_size L)"
  by (simp add: top_ok_def count_def)

lemma count2_top: "top_ok L t \<Longrightarrow> count2 t = img_size L * img_size L"
  by (simp add: top_ok_def count2_def)

section \<open>Configuration errors\<close>

text \<open>
  C15. A size parameter that is positive but below the height of the bottom map is not
  rejected by \<open>CHECK_GT(img_size_, h_ori_)\<close> as the spec's configuration error:
  \<open>scale_\<close> is 0 and the division \<open>ch_ori_ / (scale_*scale_)\<close> on line 18 traps first.
\<close>

theorem LayerSetup_small_size:
  "0 < size_param L \<Longrightarrow> nat (size_param L) < height b \<Longrightarrow> LayerSetup L b = Inl Division_by_zero"
  by (simp add: LayerSetup_def Let_def)

text \<open>
  C18. A size parameter that is not a multiple of the bottom height (but at least the
  height) is rejected by the check of line 21.
\<close>

theorem LayerSetup_not_multiple:
  "0 < height b \<Longrightarrow> int (height b) \<le> size_param L \<Longrightarrow> nat (size_param L) mod height b \<noteq> 0 \<Longrightarrow>
   LayerSetup L b = Inl Not_multiple"
  by (auto simp: LayerSetup_def Let_def div_greater_zero_iff)

text \<open>
  C19. A multiple of the height on a non-square bottom map is rejected by the check of
  line 22.
\<close>

theorem LayerSetup_not_square:
  "0 < height b \<Longrightarrow> int (height b) \<le> size_param L \<Longrightarrow> nat (size_param L) mod height b = 0 \<Longrightarrow>
   height b \<noteq> width b \<Longrightarrow> LayerSetup L b = Inl Not_square"
  by (auto simp: LayerSetup_def Let_def div_greater_zero_iff)


text \<open>
  C14. Validation: \<open>LayerSetup\<close> accepts a bottom blob exactly when the invariants of the
  spec's section 3 hold: positive map height, square map, size a multiple of the
  height and greater than it.
\<close>

theorem LayerSetup_accepts_iff:
  "(\<exists>L'. LayerSetup L b = Inr L') \<longleftrightarrow>
     0 < height b \<and> height b = width b \<and> int (height b) < size_param L \<and>
     nat (size_param L) mod height b = 0"
  by (simp add: LayerSetup_Inr_iff)

text \<open>
  C20. A square map whose height equals the size parameter passes the first checks and is
  rejected by \<open>CHECK_GT(img_size_, h_ori_)\<close> of line 23.
\<close>

theorem LayerSetup_not_greater:
  "0 < height b \<Longrightarrow> height b = width b \<Longrightarrow> size_param L = int (height b) \<Longrightarrow>
   LayerSetup L b = Inl Size_not_greater"
  by (simp add: LayerSetup_def Let_def)

text \<open>
  C16. \<open>Reshape\<close> repeats none of the checks of \<open>LayerSetup\<close>: after a successful set-up,
  a bottom blob reshaped to a non-square map is accepted, and the layer it configures
  breaks the invariant of the spec's section 3 that both passes rely on.
\<close>

theorem Reshape_skips_checks:
  assumes "LayerSetup L b = Inr L1" and "0 < height b'" and "height b' \<le> nat (size_param L)"
    and "height b' \<noteq> width b'"
  shows "\<exists>L2 sh. Reshape L1 b' = Inr (L2, sh) \<and> \<not> layer_ok L2 b'"
proof -
  have "size_param L1 = size_param L" using assms(1) by (simp add: LayerSetup_Inr_iff)
  moreover have "0 < nat (size_param L) div height b'" using assms(2,3) by (simp add: div_greater_zero_iff)
  ultimately show ?thesis using assms(2,4) by (simp add: Reshape_def Let_def layer_ok_def)
qed

section \<open>Witnesses\<close>

theorem LayerSetup_small_size_witness:
  "LayerSetup (layer0 2) \<lparr>num = 1, channels = 4, height = 4, width = 4\<rparr> = Inl Division_by_zero"
  using LayerSetup_small_size [of "layer0 2" "\<lparr>num = 1, channels = 4, height = 4, width = 4\<rparr>"]
  by (simp add: layer0_def)

theorem LayerSetup_not_multiple_witness:
  "LayerSetup (layer0 10) \<lparr>num = 1, channels = 4, height = 3, width = 3\<rparr> = Inl Not_multiple"
  using LayerSetup_not_multiple [of "\<lparr>num = 1, channels = 4, height = 3, width = 3\<rparr>" "layer0 10"]
  by (simp add: layer0_def)

theorem LayerSetup_not_square_witness:
  "LayerSetup (layer0 10) \<lparr>num = 1, channels = 4, height = 5, width = 3\<rparr> = Inl Not_square"
  using LayerSetup_not_square [of "\<lparr>num = 1, channels = 4, height = 5, width = 3\<rparr>" "layer0 10"]
  by (simp add: layer0_def)

theorem Configure_layer_ok_witness:
  "layer_ok (layer0 4\<lparr>img_size := 4, batch := 1, ch_ori := 4, h_ori := 2, w_ori := 2, scale := 2, group := 1\<rparr>)
     \<lparr>num = 1, channels = 4, height = 2, width = 2\<rparr>"
proof -
  have "Configure (layer0 4) \<lparr>num = 1, channels = 4, height = 2, width = 2\<rparr> =
        Inr (layer0 4\<lparr>img_size := 4, batch := 1, ch_ori := 4, h_ori := 2, w_ori := 2, scale := 2, group := 1\<rparr>,
             \<lparr>num = 1, channels = 1, height = 4, width = 4\<rparr>)"
    by (simp add: Configure_def LayerSetup_def Reshape_def layer0_def)
  from Configure_layer_ok [OF this] show ?thesis by simp
qed

theorem Reshape_skips_checks_witness:
  "\<exists>L2 sh. Reshape (layer0 4\<lparr>img_size := 4, ch_ori := 4, h_ori := 2, w_ori := 2, scale := 2, group := 1\<rparr>)
             \<lparr>num = 1, channels = 4, height = 2, width = 1\<rparr> = Inr (L2, sh) \<and>
           \<not> layer_ok L2 \<lparr>num = 1, channels = 4, height = 2, width = 1\<rparr>"
proof -
  have "LayerSetup (layer0 4) \<lparr>num = 1, channels = 4, height = 2, width = 2\<rparr> =
        Inr (layer0 4\<lparr>img_size := 4, ch_ori := 4, h_ori := 2, w_ori := 2, scale := 2, group := 1\<rparr>)"
    by (simp add: LayerSetup_def layer0_def)
  from Reshape_skips_checks [OF this, of "\<lparr>num = 1, channels = 4, height = 2, width = 1\<rparr>"]
  show ?thesis by (simp add: layer0_def)
qed

theorem LayerSetup_accepts_iff_witness:
  "(\<exists>L'. LayerSetup (layer0 4) \<lparr>num = 1, channels = 4, height = 2, width = 2\<rparr> = Inr L') \<and>
   \<not> (\<exists>L'. LayerSetup (layer0 5) \<lparr>num = 1, channels = 4, height = 2, width = 2\<rparr> = Inr L')"
  using LayerSetup_accepts_iff [of "layer0 4" "\<lparr>num = 1, channels = 4, height = 2, width = 2\<rparr>"]
        LayerSetup_accepts_iff [of "layer0 5" "\<lparr>num = 1, channels = 4, height = 2, width = 2\<rparr>"]
  by (simp add: layer0_def)

theorem LayerSetup_not_greater_witness:
  "LayerSetup (layer0 3) \<lparr>num = 1, channels = 4, height = 3, width = 3\<rparr> = Inl Size_not_greater"
  using LayerSetup_not_greater [of "\<lparr>num = 1, channels = 4, height = 3, width = 3\<rparr>" "layer0 3"]
  by (simp add: layer0_def)

end
