(* ===== verification/Enlarge_Index.thy ===== *)
theory Enlarge_Index
  imports Enlarge_Prelude
begin

text \<open>
  The index-mapping policy both passes share. For output row \<open>h\<close> and column
  \<open>w\<close> of a map of side \<open>img_size_ = scale * w_ori\<close>, the code reads or writes
  (lines 62--63, 77, 80, 88 and 124--125, 139, 142, 150 of \<open>src/enlarge_layer.cpp\<close>):
  \<^item> \<open>index_n = h*img_size_ + w\<close>, the offset in the output map;
  \<^item> \<open>map_ind_o = h%scale_*scale_ + w%scale_\<close>, the input map of the block;
  \<^item> \<open>h/scale_*w_ori_ + w/scale_\<close>, the cell of that input map;
  \<^item> \<open>index_o = map_ind_o*sp_os + cell\<close>, the offset in the block of input maps.
  \<open>out_h\<close> and \<open>out_w\<close> invert \<open>index_o\<close>; they are not in the code.
  \<open>avg_target\<close> is the set of input positions one pixel of the backward remainder
  branch assigns. The theory proves the bounds of these offsets, that \<open>index_o\<close> is a
  bijection of the output plane onto the block of \<open>scale\<^sup>2\<close> maps, that the remainder
  targets partition the \<open>scale\<^sup>2 + extra\<close> maps, and the loop lemmas for the two
  nested pixel loops.
\<close>

definition index_n :: "nat \<Rightarrow> nat \<Rightarrow> nat \<Rightarrow> nat" where
  "index_n S h w = h * S + w"

definition map_ind_o :: "nat \<Rightarrow> nat \<Rightarrow> nat \<Rightarrow> nat" where
  "map_ind_o s h w = h mod s * s + w mod s"

definition cell_o :: "nat \<Rightarrow> nat \<Rightarrow> nat \<Rightarrow> nat \<Rightarrow> nat" where
  "cell_o s W h w = h div s * W + w div s"

definition index_o :: "nat \<Rightarrow> nat \<Rightarrow> nat \<Rightarrow> nat \<Rightarrow> nat \<Rightarrow> nat" where
  "index_o s W sp h w = map_ind_o s h w * sp + cell_o s W h w"

definition out_h :: "nat \<Rightarrow> nat \<Rightarrow> nat \<Rightarrow> nat \<Rightarrow> nat" where
  "out_h s W sp k = k mod sp div W * s + k div sp div s"

definition out_w :: "nat \<Rightarrow> nat \<Rightarrow> nat \<Rightarrow> nat \<Rightarrow> nat" where
  "out_w s W sp k = k mod sp mod W * s + k div sp mod s"

text \<open>
  The input positions one output pixel's gradient is assigned to in the remainder
  branch of \<open>Backward_cpu\<close> (lines 139--153): one position, or for the last position
  of the block (\<open>map_ind_o = scale\<^sup>2 - 1\<close>) the \<open>extra + 1\<close> maps from there on.
\<close>

definition avg_target :: "nat \<Rightarrow> nat \<Rightarrow> nat \<Rightarrow> nat \<Rightarrow> nat \<Rightarrow> nat \<Rightarrow> nat \<Rightarrow> bool" where
  "avg_target s W sp e h w k \<longleftrightarrow>
     (map_ind_o s h w \<noteq> s * s - 1 \<and> k = index_o s W sp h w) \<or>
     (map_ind_o s h w = s * s - 1 \<and> (\<exists>i<Suc e. k = (map_ind_o s h w + i) * sp + cell_o s W h w))"

section \<open>Bounds\<close>

lemma div_scale_less [index_bounds]: "h < s * W \<Longrightarrow> h div s < (W::nat)"
  using less_mult_imp_div_less [of h W s] by (simp add: mult.commute)

lemma map_ind_o_less [index_bounds]: "0 < s \<Longrightarrow> map_ind_o s h w < s * s"
  unfolding map_ind_o_def by (intro mod_mult_add_less) simp_all

lemma cell_o_less [index_bounds]:
  "h < s * W \<Longrightarrow> w < s * W \<Longrightarrow> cell_o s W h w < W * W"
  unfolding cell_o_def by (intro mod_mult_add_less div_scale_less)

lemma index_o_less [index_bounds]:
  "0 < s \<Longrightarrow> h < s * W \<Longrightarrow> w < s * W \<Longrightarrow> index_o s W (W * W) h w < s * s * (W * W)"
  unfolding index_o_def by (intro mod_mult_add_less map_ind_o_less cell_o_less)

lemma index_n_less [index_bounds]: "h < S \<Longrightarrow> w < S \<Longrightarrow> index_n S h w < S * S"
  unfolding index_n_def by (rule mod_mult_add_less)

lemma index_n_div_mod:
  "w < S \<Longrightarrow> index_n S h w div S = h \<and> index_n S h w mod S = w"
  by (simp add: index_n_def)

section \<open>The row-major sweep over an output map\<close>

text \<open>
  The nested \<open>h\<close>/\<open>w\<close> loops of a pass that writes \<open>p[b + index_n]\<close> from a value
  function of the absolute position fill the block \<open>[b, b + S*S)\<close>.
\<close>

lemma for_loop_plane:
  assumes "\<And>h w ys. h < S \<Longrightarrow> w < S \<Longrightarrow> length ys = length xs \<Longrightarrow>
             px h w ys = Some (ys[b + index_n S h w := F (b + index_n S h w)])"
  shows "for_loop S (\<lambda>h. for_loop S (\<lambda>w. px h w)) xs =
         Some (ovr (\<lambda>j. b \<le> j \<and> j < b + S * S) F xs)"
proof (rule for_loop_blocks)
  fix h :: nat and ys :: "'a list" assume h: "h < S" and ys: "length ys = length xs"
  have "for_loop S (\<lambda>w. px h w) ys =
        Some (ovr (\<lambda>j. b + h * S \<le> j \<and> j < b + h * S + S * 1) F ys)"
  proof (rule for_loop_blocks)
    fix w :: nat and zs :: "'a list" assume "w < S" "length zs = length ys"
    with h ys assms show "px h w zs =
        Some (ovr (\<lambda>j. b + h * S + w * 1 \<le> j \<and> j < b + h * S + w * 1 + 1) F zs)"
      by (simp add: update_as_ovr index_n_def add.assoc less_Suc_eq_le le_antisym
                    conj_commute [of "_ \<le> _"] cong: conj_cong)
  qed
  then show "for_loop S (\<lambda>w. px h w) ys =
             Some (ovr (\<lambda>j. b + h * S \<le> j \<and> j < b + h * S + S) F ys)"
    by simp
qed

section \<open>Inverse\<close>

lemma index_o_div_mod:
  assumes "0 < s" "h < s * W" "w < s * W"
  shows "index_o s W (W * W) h w div (W * W) = map_ind_o s h w"
    and "index_o s W (W * W) h w mod (W * W) = cell_o s W h w"
proof -
  have c: "cell_o s W h w < W * W" using cell_o_less [OF assms(2,3)] .
  then have "0 < W * W" by (rule le_less_trans [OF le0])
  from div_mult_mod_split [OF this c, of "map_ind_o s h w"]
  show "index_o s W (W * W) h w div (W * W) = map_ind_o s h w"
    and "index_o s W (W * W) h w mod (W * W) = cell_o s W h w"
    unfolding index_o_def by simp_all
qed

lemma out_index_o:
  assumes "0 < s" "h < s * W" "w < s * W"
  shows "out_h s W (W * W) (index_o s W (W * W) h w) = h"
    and "out_w s W (W * W) (index_o s W (W * W) h w) = w"
proof -
  have W: "0 < W" using assms by (cases W) auto
  have c: "cell_o s W h w div W = h div s" "cell_o s W h w mod W = w div s"
    using div_scale_less [OF assms(3)] W unfolding cell_o_def by simp_all
  have m: "map_ind_o s h w div s = h mod s" "map_ind_o s h w mod s = w mod s"
    using assms(1) unfolding map_ind_o_def by simp_all
  show "out_h s W (W * W) (index_o s W (W * W) h w) = h"
    unfolding out_h_def index_o_div_mod [OF assms] c m by simp
  show "out_w s W (W * W) (index_o s W (W * W) h w) = w"
    unfolding out_w_def index_o_div_mod [OF assms] c m by simp
qed

lemma out_hw_less [index_bounds]:
  assumes "0 < s" "0 < W" "k < s * s * (W * W)"
  shows "out_h s W (W * W) k < s * W" and "out_w s W (W * W) k < s * W"
proof -
  have "k div (W * W) < s * s" using assms by (simp add: div_less_iff_less_mult)
  then have a: "k div (W * W) div s < s" by (rule less_mult_imp_div_less)
  have "k mod (W * W) < W * W" using assms by simp
  then have r: "k mod (W * W) div W < W" by (rule less_mult_imp_div_less)
  have b: "k div (W * W) mod s < s" "k mod (W * W) mod W < W" using assms by simp_all
  show "out_h s W (W * W) k < s * W"
    unfolding out_h_def using mod_mult_add_less [OF r a] by (simp add: mult.commute)
  show "out_w s W (W * W) k < s * W"
    unfolding out_w_def using mod_mult_add_less [OF b(2) b(1)] by (simp add: mult.commute)
qed

lemma index_o_out:
  assumes "0 < s" "0 < W" "k < s * s * (W * W)"
  shows "index_o s W (W * W) (out_h s W (W * W) k) (out_w s W (W * W) k) = k"
proof -
  let ?c = "k div (W * W)" and ?q = "k mod (W * W)"
  have q: "?q < W * W" using assms by simp
  then have r: "?q div W < W" by (rule less_mult_imp_div_less)
  have "?c < s * s" using assms by (simp add: div_less_iff_less_mult)
  then have a: "?c div s < s" by (rule less_mult_imp_div_less)
  have hdiv: "out_h s W (W * W) k div s = ?q div W" "out_h s W (W * W) k mod s = ?c div s"
    using assms(1) a unfolding out_h_def by simp_all
  have wdiv: "out_w s W (W * W) k div s = ?q mod W" "out_w s W (W * W) k mod s = ?c mod s"
    using assms(1) unfolding out_w_def by simp_all
  have "map_ind_o s (out_h s W (W * W) k) (out_w s W (W * W) k) = ?c"
    unfolding map_ind_o_def hdiv wdiv by simp
  moreover have "cell_o s W (out_h s W (W * W) k) (out_w s W (W * W) k) = ?q"
    unfolding cell_o_def hdiv wdiv by simp
  ultimately show ?thesis unfolding index_o_def by (simp only: div_mult_mod_eq)
qed

section \<open>Coverage of the input slab\<close>

lemma index_o_cover:
  assumes "0 < s" "0 < W"
  shows "(\<exists>h<s * W. \<exists>w<s * W. k = index_o s W (W * W) h w) \<longleftrightarrow> k < s * s * (W * W)"
proof
  assume "\<exists>h<s * W. \<exists>w<s * W. k = index_o s W (W * W) h w"
  then show "k < s * s * (W * W)" using assms(1) by (auto intro: index_o_less)
next
  assume k: "k < s * s * (W * W)"
  show "\<exists>h<s * W. \<exists>w<s * W. k = index_o s W (W * W) h w"
    using out_hw_less [OF assms k] index_o_out [OF assms k] by metis
qed

lemma avg_cover:
  assumes s: "0 < s" and W: "0 < W"
  shows "(\<exists>h<s * W. \<exists>w<s * W. avg_target s W (W * W) e h w k) \<longleftrightarrow> k < (s * s + e) * (W * W)"
  (is "?L \<longleftrightarrow> ?R")
  unfolding avg_target_def
proof
  assume "\<exists>h<s * W. \<exists>w<s * W.
            (map_ind_o s h w \<noteq> s * s - 1 \<and> k = index_o s W (W * W) h w) \<or>
            (map_ind_o s h w = s * s - 1 \<and>
             (\<exists>i<Suc e. k = (map_ind_o s h w + i) * (W * W) + cell_o s W h w))"
  then obtain h w where hw: "h < s * W" "w < s * W" and
    c: "(map_ind_o s h w \<noteq> s * s - 1 \<and> k = index_o s W (W * W) h w) \<or>
        (map_ind_o s h w = s * s - 1 \<and> (\<exists>i<Suc e. k = (map_ind_o s h w + i) * (W * W) + cell_o s W h w))"
    by blast
  have cell: "cell_o s W h w < W * W" using hw by (rule cell_o_less)
  have m: "map_ind_o s h w < s * s" using s by (rule map_ind_o_less)
  show ?R
  proof (cases "map_ind_o s h w = s * s - 1")
    case True
    with c obtain i where "i < Suc e" "k = (map_ind_o s h w + i) * (W * W) + cell_o s W h w" by auto
    moreover have "map_ind_o s h w + i < s * s + e" if "i < Suc e" for i
      using True that m by linarith
    ultimately show ?R using mod_mult_add_less cell by metis
  next
    case False
    with c have "k = index_o s W (W * W) h w" by simp
    with index_o_less [OF s hw] show ?R by (simp add: add_mult_distrib)
  qed
next
  assume R: ?R
  let ?sp = "W * W" let ?c = "k div ?sp" and ?q = "k mod ?sp"
  have sp: "0 < ?sp" using W by simp
  have q: "?q < ?sp" using sp by simp
  have c: "?c < s * s + e" using R sp by (simp add: div_less_iff_less_mult)
  have ss: "0 < s * s" using s by simp
  show "\<exists>h<s * W. \<exists>w<s * W.
            (map_ind_o s h w \<noteq> s * s - 1 \<and> k = index_o s W (W * W) h w) \<or>
            (map_ind_o s h w = s * s - 1 \<and>
             (\<exists>i<Suc e. k = (map_ind_o s h w + i) * (W * W) + cell_o s W h w))"
  proof (cases "?c < s * s - 1")
    case True
    have k: "k < s * s * ?sp"
    proof -
      have "?c < s * s" using True by linarith
      then show ?thesis using sp by (simp add: div_less_iff_less_mult)
    qed
    let ?h = "out_h s W ?sp k" and ?w = "out_w s W ?sp k"
    have hw: "?h < s * W" "?w < s * W" using out_hw_less [OF s W k] by simp_all
    have e: "index_o s W ?sp ?h ?w = k" by (rule index_o_out [OF s W k])
    have "map_ind_o s ?h ?w = ?c" using index_o_div_mod(1) [OF s hw] e by simp
    with hw e True show ?thesis by (intro exI [of _ ?h] conjI exI [of _ ?w]) auto
  next
    case False
    define k0 where "k0 = (s * s - 1) * ?sp + ?q"
    have k0: "k0 < s * s * ?sp"
    proof -
      have "s * s - 1 < s * s" using ss by simp
      from mod_mult_add_less [OF this q] show ?thesis by (simp add: k0_def)
    qed
    let ?h = "out_h s W ?sp k0" and ?w = "out_w s W ?sp k0"
    have hw: "?h < s * W" "?w < s * W" using out_hw_less [OF s W k0] by simp_all
    have e: "index_o s W ?sp ?h ?w = k0" by (rule index_o_out [OF s W k0])
    have dm: "k0 div ?sp = s * s - 1" "k0 mod ?sp = ?q"
      using div_mult_mod_split [OF sp q, of "s * s - 1"] by (simp_all add: k0_def)
    have m: "map_ind_o s ?h ?w = s * s - 1" and cl: "cell_o s W ?h ?w = ?q"
      using index_o_div_mod [OF s hw] e dm by simp_all
    define i where "i = ?c - (s * s - 1)"
    have i: "i < Suc e" using c False unfolding i_def by linarith
    have "s * s - 1 + i = ?c" using False unfolding i_def by linarith
    then have "k = (s * s - 1 + i) * ?sp + ?q" by (simp only: div_mult_mod_eq)
    with hw m cl i show ?thesis
      by (intro exI [of _ ?h] conjI exI [of _ ?w]) auto
  qed
qed

lemma for_loop_plane_scatter:
  fixes xs :: "'a list"
  assumes "\<And>h w ys. h < S \<Longrightarrow> w < S \<Longrightarrow> length ys = length xs \<Longrightarrow>
             px h w ys = Some (ovr (\<lambda>j. \<exists>k. j = b + k \<and> T h w k) F ys)"
  shows "for_loop S (\<lambda>h. for_loop S (\<lambda>w. px h w)) xs =
         Some (ovr (\<lambda>j. \<exists>k. j = b + k \<and> (\<exists>h<S. \<exists>w<S. T h w k)) F xs)"
proof -
  have "for_loop S (\<lambda>h. for_loop S (\<lambda>w. px h w)) xs =
        Some (ovr (\<lambda>j. \<exists>h<S. \<exists>w<S. \<exists>k. j = b + k \<and> T h w k) F xs)"
  proof (rule for_loop_ovr)
    fix h :: nat and ys :: "'a list" assume "h < S" "length ys = length xs"
    then show "for_loop S (\<lambda>w. px h w) ys = Some (ovr (\<lambda>j. \<exists>w<S. \<exists>k. j = b + k \<and> T h w k) F ys)"
      using assms by (intro for_loop_ovr) simp
  qed
  also have "(\<lambda>j. \<exists>h<S. \<exists>w<S. \<exists>k. j = b + k \<and> T h w k) = (\<lambda>j. \<exists>k. j = b + k \<and> (\<exists>h<S. \<exists>w<S. T h w k))"
    by blast
  finally show ?thesis .
qed

lemma last_loc_div_mod:
  assumes "0 < (s::nat)"
  shows "(s * s - 1) div s = s - 1" "(s * s - 1) mod s = s - 1"
proof -
  have e: "s * s - 1 = (s - 1) * s + (s - 1)" using assms by (cases s) simp_all
  have l: "s - 1 < s" using assms by simp
  show "(s * s - 1) div s = s - 1" "(s * s - 1) mod s = s - 1"
    unfolding e using div_mult_mod_split [OF assms l] by simp_all
qed

lemma last_slot:
  assumes "0 < G" "0 < q"
  shows "(G - 1) * q + (q - 1) = G * q - 1" and "(G - 1) * q + (q - 1) < G * (q::nat)"
proof -
  obtain g where g: "G = Suc g" using assms(1) by (cases G) auto
  show "(G - 1) * q + (q - 1) = G * q - 1" "(G - 1) * q + (q - 1) < G * q"
    using assms(2) unfolding g by simp_all
qed

lemma out_pos_decode:
  assumes "n < (G::nat)" "h < S" "w < S"
  shows "(((m * G + n) * S + h) * S + w) div (G * S * S) = m"
    "(((m * G + n) * S + h) * S + w) div (S * S) mod G = n"
    "(((m * G + n) * S + h) * S + w) div S mod S = h"
    "(((m * G + n) * S + h) * S + w) mod S = w"
proof -
  have i: "h * S + w < S * S" using assms(2,3) by (rule mod_mult_add_less)
  have e: "((m * G + n) * S + h) * S + w = (m * G + n) * (S * S) + (h * S + w)"
    by (simp add: algebra_simps)
  have S: "0 < S * S" using assms(2) by simp
  have d: "(((m * G + n) * S + h) * S + w) div (S * S) = m * G + n"
    using div_mult_mod_split [OF S i, of "m * G + n"] unfolding e by simp
  show "(((m * G + n) * S + h) * S + w) div (S * S) mod G = n"
    unfolding d using assms(1) by simp
  show "(((m * G + n) * S + h) * S + w) div (G * S * S) = m"
    using d div_mult2_eq [of "((m * G + n) * S + h) * S + w" "S * S" G] assms(1)
    by (simp add: mult.commute mult.left_commute)
  show "(((m * G + n) * S + h) * S + w) div S mod S = h"
    using assms(2,3) by (simp add: e[symmetric])
  show "(((m * G + n) * S + h) * S + w) mod S = w"
    using assms(3) by simp
qed

lemma avg_target_index:
  assumes s: "0 < s" and hw: "h < s * W" "w < s * W" and t: "avg_target s W (W * W) e h w k"
  shows "index_o s W (W * W) h w = min (k div (W * W)) (s * s - 1) * (W * W) + k mod (W * W)"
proof -
  let ?m = "map_ind_o s h w" and ?c = "cell_o s W h w"
  have m: "?m < s * s" using s by (rule map_ind_o_less)
  have c: "?c < W * W" using hw by (rule cell_o_less)
  then have sp: "0 < W * W" by (rule le_less_trans [OF le0])
  show ?thesis
  proof (cases "?m = s * s - 1")
    case True
    with t obtain i where "k = (?m + i) * (W * W) + ?c" by (auto simp: avg_target_def)
    then have "k div (W * W) = ?m + i" "k mod (W * W) = ?c" using div_mult_mod_split [OF sp c] by simp_all
    then show ?thesis using True by (simp add: index_o_def)
  next
    case False
    with t have k: "k = index_o s W (W * W) h w" by (simp add: avg_target_def)
    have "?m < s * s - 1" using m False by linarith
    then show ?thesis using k index_o_div_mod [OF s hw] by (simp add: index_o_def)
  qed
qed

section \<open>The index map is a partition\<close>

text \<open>
  C11. Partition (the spec's section 4.2 asks for it): \<open>index_o\<close> maps the
  \<open>img_size x img_size\<close> output plane one to one onto the block of \<open>scale\<^sup>2\<close> input
  maps, so in a complete group every input position is read (forward) and written
  (backward) by exactly one output pixel.
\<close>

theorem index_o_partition:
  assumes s: "0 < s" and W: "0 < W"
  shows "bij_betw (\<lambda>(h, w). index_o s W (W * W) h w) ({..<s * W} \<times> {..<s * W}) {..<s * s * (W * W)}"
proof (rule bij_betwI')
  fix x y assume "x \<in> {..<s * W} \<times> {..<s * W}" "y \<in> {..<s * W} \<times> {..<s * W}"
  then obtain h w h' w' where x: "x = (h, w)" "h < s * W" "w < s * W"
    and y: "y = (h', w')" "h' < s * W" "w' < s * W" by auto
  show "((\<lambda>(h, w). index_o s W (W * W) h w) x = (\<lambda>(h, w). index_o s W (W * W) h w) y) = (x = y)"
    using out_index_o [OF s x(2,3)] out_index_o [OF s y(2,3)] x(1) y(1) by auto
next
  fix x assume "x \<in> {..<s * W} \<times> {..<s * W}"
  then show "(\<lambda>(h, w). index_o s W (W * W) h w) x \<in> {..<s * s * (W * W)}"
    using index_o_less [OF s] by auto
next
  fix k assume "k \<in> {..<s * s * (W * W)}"
  then have "\<exists>h<s * W. \<exists>w<s * W. k = index_o s W (W * W) h w"
    using index_o_cover [OF s W] by simp
  then obtain h w where "h < s * W" "w < s * W" "k = index_o s W (W * W) h w" by blast
  then show "\<exists>x\<in>{..<s * W} \<times> {..<s * W}. k = (\<lambda>(h, w). index_o s W (W * W) h w) x" by auto
qed

theorem index_o_partition_witness:
  "bij_betw (\<lambda>(h, w). index_o 2 2 (2 * 2) h w) ({..<2 * 2} \<times> {..<2 * 2}) {..<2 * 2 * (2 * 2 :: nat)}"
  using index_o_partition [of 2 2] by simp

text \<open>
  C12. In the remainder group every input position of the \<open>scale\<^sup>2 + extra\<close> maps is
  a target of exactly one output pixel: the last pixel of a block owns the
  \<open>extra + 1\<close> maps from \<open>scale\<^sup>2 - 1\<close> on at its cell, every other pixel its own
  position, so \<open>Backward_cpu\<close>'s assignments never overwrite each other.
\<close>

theorem avg_target_unique:
  assumes s: "0 < s" and W: "0 < W" and k: "k < (s * s + e) * (W * W)"
  shows "\<exists>!hw. fst hw < s * W \<and> snd hw < s * W \<and> avg_target s W (W * W) e (fst hw) (snd hw) k"
proof -
  obtain h w where hw: "h < s * W" "w < s * W" "avg_target s W (W * W) e h w k"
    using avg_cover [OF s W, of e k] k by blast
  show ?thesis
  proof (rule ex1I [of _ "(h, w)"])
    fix x assume x: "fst x < s * W \<and> snd x < s * W \<and> avg_target s W (W * W) e (fst x) (snd x) k"
    then have "index_o s W (W * W) (fst x) (snd x) = index_o s W (W * W) h w"
      using avg_target_index [OF s _ _, of "fst x" W "snd x" e k] avg_target_index [OF s hw] by simp
    then show "x = (h, w)"
      using out_index_o [OF s hw(1,2)] out_index_o [of s "fst x" W "snd x"] s x by (cases x) auto
  qed (use hw in simp)
qed

theorem avg_target_unique_witness:
  "\<exists>!hw. fst hw < 2 * 1 \<and> snd hw < 2 * 1 \<and> avg_target 2 1 (1 * 1) 1 (fst hw) (snd hw) (4::nat)"
  using avg_target_unique [of 2 1 4 1] by simp

end
