(* ===== verification/Enlarge_Forward.thy ===== *)
theory Enlarge_Forward
  imports Enlarge_Config Enlarge_Index
begin

text \<open>
  \<open>EnlargeLayer::Forward_cpu\<close> (lines 42--99 of \<open>src/enlarge_layer.cpp\<close>) and the
  depth-to-space map it implements. The model keeps the code's structure: four nested
  loops over batch, group, row and column; the data pointers \<open>bottom_data\<close> and
  \<open>top_data\<close> as offsets advanced after each complete group (lines 67--68) and not
  after the last group of the remainder branch; every read and write bounds-checked.
  \<open>Dtype\<close> is an arbitrary field: the arithmetic is exact, rounding is not modelled.
\<close>

section \<open>The code\<close>

text \<open>Lines 62--64: one output pixel copied from its input cell.\<close>

definition fwd_copy_px :: "enlarge_layer \<Rightarrow> nat \<Rightarrow> 'a buffer \<Rightarrow> nat \<Rightarrow> nat \<Rightarrow> nat \<Rightarrow> nat \<Rightarrow>
                           'a buffer \<Rightarrow> 'a buffer option" where
  "fwd_copy_px L sp_os bottom_data bo to h w top_data =
     (let index_n = index_n (img_size L) h w;
          index_o = index_o (scale L) (w_ori L) sp_os h w
      in do { v \<leftarrow> rd bottom_data (bo + index_o); wr top_data (to + index_n) v })"

text \<open>
  Lines 76--93: a pixel of the last group when there are remainder maps. All but the
  last position of the block copy; the last one averages the \<open>extra_maps + 1\<close> maps
  from \<open>map_ind_o\<close> on, summed left to right from 0 as the loop of lines 85--90 does.
\<close>

definition fwd_avg_px :: "enlarge_layer \<Rightarrow> nat \<Rightarrow> nat \<Rightarrow> 'a::field buffer \<Rightarrow> nat \<Rightarrow> nat \<Rightarrow>
                          nat \<Rightarrow> nat \<Rightarrow> 'a buffer \<Rightarrow> 'a buffer option" where
  "fwd_avg_px L sp_os extra bottom_data bo to h w top_data =
     (let s = scale L;
          index_n = index_n (img_size L) h w;
          map_ind_o = map_ind_o s h w;
          cell = cell_o s (w_ori L) h w
      in if map_ind_o \<noteq> s * s - 1 then
           do { v \<leftarrow> rd bottom_data (bo + (map_ind_o * sp_os + cell));
                wr top_data (to + index_n) v }
         else
           do { sum \<leftarrow> for_loop (Suc extra)
                        (\<lambda>i sum. do { x \<leftarrow> rd bottom_data (bo + ((map_ind_o + i) * sp_os + cell));
                                     Some (sum + x) }) 0;
                wr top_data (to + index_n) (sum / of_nat (extra + 1)) })"

text \<open>Lines 58--66 and 72--95: the row and column loops over one output map.\<close>

definition fwd_copy_map :: "enlarge_layer \<Rightarrow> nat \<Rightarrow> 'a buffer \<Rightarrow> nat \<Rightarrow> nat \<Rightarrow>
                            'a buffer \<Rightarrow> 'a buffer option" where
  "fwd_copy_map L sp_os bottom_data bo to =
     for_loop (img_size L) (\<lambda>h. for_loop (img_size L) (\<lambda>w. fwd_copy_px L sp_os bottom_data bo to h w))"

definition fwd_avg_map :: "enlarge_layer \<Rightarrow> nat \<Rightarrow> nat \<Rightarrow> 'a::field buffer \<Rightarrow> nat \<Rightarrow> nat \<Rightarrow>
                           'a buffer \<Rightarrow> 'a buffer option" where
  "fwd_avg_map L sp_os extra bottom_data bo to =
     for_loop (img_size L) (\<lambda>h. for_loop (img_size L) (\<lambda>w. fwd_avg_px L sp_os extra bottom_data bo to h w))"

text \<open>
  Lines 56--96: one output group. A complete group advances both pointers
  (lines 67--68); the remainder branch advances neither.
\<close>

definition fwd_group :: "enlarge_layer \<Rightarrow> nat \<Rightarrow> nat \<Rightarrow> nat \<Rightarrow> 'a::field buffer \<Rightarrow> nat \<Rightarrow>
                         'a ptr_state \<Rightarrow> 'a ptr_state option" where
  "fwd_group L sp_os sp_ns extra bottom_data n st =
     (if n \<noteq> group L - 1 \<or> extra = 0 then
        do { t \<leftarrow> fwd_copy_map L sp_os bottom_data (b_off st) (t_off st) (buf st);
             Some (st\<lparr>b_off := b_off st + scale L * scale L * sp_os,
                      t_off := t_off st + sp_ns, buf := t\<rparr>) }
      else
        do { t \<leftarrow> fwd_avg_map L sp_os extra bottom_data (b_off st) (t_off st) (buf st);
             Some (st\<lparr>buf := t\<rparr>) })"

text \<open>Lines 43--99: the batch and group loops from the start of both buffers.\<close>

definition Forward_cpu :: "enlarge_layer \<Rightarrow> 'a::field blob \<Rightarrow> 'a blob \<Rightarrow> 'a blob option" where
  "Forward_cpu L bottom top_blob =
     (let sp_os = count2 bottom; sp_ns = count2 top_blob; extra = extra_maps L
      in do { st \<leftarrow> for_loop (batch L)
                     (\<lambda>m. for_loop (group L) (fwd_group L sp_os sp_ns extra (data bottom)))
                     \<lparr>b_off = 0, t_off = 0, buf = data top_blob\<rparr>;
              Some (top_blob\<lparr>data := buf st\<rparr>) })"

section \<open>The value of one output pixel\<close>

text \<open>
  What \<open>fwd_copy_px\<close> (\<open>avg\<close> false) or \<open>fwd_avg_px\<close> (\<open>avg\<close> true) writes at
  \<open>(h, w)\<close> when the reads are in range, with the bottom pointer at \<open>bo\<close>.
\<close>

definition fwd_val :: "enlarge_layer \<Rightarrow> nat \<Rightarrow> 'a::field buffer \<Rightarrow> nat \<Rightarrow> bool \<Rightarrow> nat \<Rightarrow> nat \<Rightarrow> 'a" where
  "fwd_val L sp X bo avg h w =
     (let s = scale L; m = map_ind_o s h w; cell = cell_o s (w_ori L) h w
      in if avg \<and> m = s * s - 1
         then (\<Sum>i<Suc (extra_maps L). X ! (bo + ((m + i) * sp + cell))) / of_nat (extra_maps L + 1)
         else X ! (bo + (m * sp + cell)))"

text \<open>
  What one iteration of the batch loop writes at offset \<open>k\<close> of its slab of
  \<open>group * img_size\<^sup>2\<close> outputs, with the bottom pointer at \<open>bo\<close> on entry.
\<close>

definition fwd_batch_val :: "enlarge_layer \<Rightarrow> nat \<Rightarrow> 'a::field buffer \<Rightarrow> nat \<Rightarrow> nat \<Rightarrow> 'a" where
  "fwd_batch_val L sp X bo k =
     (let S = img_size L; n = k div (S * S); p = k mod (S * S)
      in fwd_val L sp X (bo + n * (scale L * scale L) * sp)
           (n = group L - 1 \<and> extra_maps L \<noteq> 0) (p div S) (p mod S))"

section \<open>The specification\<close>

text \<open>
  The spec's section 4.1, written from its words: output element \<open>(m, n, h, w)\<close>
  is input channel \<open>n*scale\<^sup>2 + (h mod scale)*scale + w mod scale\<close> of batch \<open>m\<close> at
  cell \<open>(h div scale, w div scale)\<close>, except the last position of the last group's
  block when there are remainder maps: the mean of that channel and the
  \<open>extra_maps\<close> channels after it.
\<close>

definition enlarge_ref :: "enlarge_layer \<Rightarrow> 'a::field buffer \<Rightarrow> 'a buffer" where
  "enlarge_ref L X =
     (let S = img_size L; s = scale L; W = w_ori L; sp = h_ori L * w_ori L;
          G = group L; C = ch_ori L; e = extra_maps L
      in map (\<lambda>j. let m = j div (G * S * S); n = j div (S * S) mod G;
                     h = j div S mod S; w = j mod S;
                     loc = h mod s * s + w mod s; c = n * (s * s) + loc;
                     p = h div s * W + w div s
                 in if n = G - 1 \<and> 0 < e \<and> loc = s * s - 1
                    then (\<Sum>i\<le>e. X ! ((m * C + c + i) * sp + p)) / of_nat (e + 1)
                    else X ! ((m * C + c) * sp + p))
             [0..<batch L * G * S * S])"

section \<open>Instances\<close>

text \<open>The spec's concrete scenario: \<open>N = 1, C = 4, h_ori = 2, S = 4\<close>.\<close>

definition layer_ex :: enlarge_layer where
  "layer_ex = \<lparr>size_param = 4, img_size = 4, batch = 1, ch_ori = 4, h_ori = 2, w_ori = 2,
                 scale = 2, group = 1\<rparr>"

definition bottom_ex :: "'a::field blob" where
  "bottom_ex = \<lparr>num = 1, channels = 4, height = 2, width = 2,
                 data = map of_nat [0..<16], diff = replicate 16 0\<rparr>"

definition top_ex :: "'a::field blob" where
  "top_ex = \<lparr>num = 1, channels = 1, height = 4, width = 4,
              data = replicate 16 0, diff = replicate 16 0\<rparr>"

text \<open>
  Two images of one input map each, \<open>C = 5\<close> with \<open>scale = 2\<close>: one output group,
  one remainder map.
\<close>

definition layer_bug :: enlarge_layer where
  "layer_bug = \<lparr>size_param = 2, img_size = 2, batch = 2, ch_ori = 5, h_ori = 1, w_ori = 1,
                  scale = 2, group = 1\<rparr>"

definition bottom_bug :: "'a::field blob" where
  "bottom_bug = \<lparr>num = 2, channels = 5, height = 1, width = 1,
                  data = replicate 5 0 @ replicate 5 1, diff = replicate 10 0\<rparr>"

definition top_bug :: "'a::field blob" where
  "top_bug = \<lparr>num = 2, channels = 1, height = 2, width = 2,
               data = replicate 8 0, diff = replicate 8 0\<rparr>"

text \<open>One image, \<open>C = 5\<close> maps of one cell, \<open>scale = 2\<close>: one group and one remainder map.\<close>

definition layer_rem :: enlarge_layer where
  "layer_rem = \<lparr>size_param = 2, img_size = 2, batch = 1, ch_ori = 5, h_ori = 1, w_ori = 1,
                  scale = 2, group = 1\<rparr>"

definition bottom_rem :: "'a::field blob" where
  "bottom_rem = \<lparr>num = 1, channels = 5, height = 1, width = 1,
                  data = map of_nat [1..<6], diff = replicate 5 0\<rparr>"

definition top_rem :: "'a::field blob" where
  "top_rem = \<lparr>num = 1, channels = 1, height = 2, width = 2,
               data = replicate 4 0, diff = [1, 2, 3, 4]\<rparr>"

section \<open>One pixel, one map, one group\<close>

lemma fwd_copy_px_eq:
  assumes L: "layer_ok L b" and hw: "h < img_size L" "w < img_size L"
    and rd: "bo + scale L * scale L * count2 b \<le> length X"
    and wr: "to + img_size L * img_size L \<le> length T"
  shows "fwd_copy_px L (count2 b) X bo to h w T =
         Some (T[to + index_n (img_size L) h w := fwd_val L (count2 b) X bo False h w])"
proof -
  note d = layer_ok_dims [OF L]
  have "index_o (scale L) (w_ori L) (count2 b) h w < scale L * scale L * count2 b"
    using index_o_less [of "scale L" h "w_ori L" w] d hw by simp
  moreover have "index_n (img_size L) h w < img_size L * img_size L"
    using hw by (rule index_n_less)
  ultimately show ?thesis using rd wr
    by (simp add: fwd_copy_px_def fwd_val_def index_o_def Let_def)
qed

lemma fwd_avg_px_eq:
  assumes L: "layer_ok L b" and hw: "h < img_size L" "w < img_size L"
    and rd: "bo + (scale L * scale L + extra_maps L) * count2 b \<le> length X"
    and wr: "to + img_size L * img_size L \<le> length T"
  shows "fwd_avg_px L (count2 b) (extra_maps L) X bo to h w T =
         Some (T[to + index_n (img_size L) h w := fwd_val L (count2 b) X bo True h w])"
proof -
  note d = layer_ok_dims [OF L]
  let ?s = "scale L" and ?sp = "count2 b"
  let ?m = "map_ind_o ?s h w" and ?c = "cell_o ?s (w_ori L) h w"
  have m: "?m < ?s * ?s" using d by (simp add: map_ind_o_less)
  have c: "?c < ?sp" using cell_o_less [of h ?s "w_ori L" w] d hw by simp
  have n: "index_n (img_size L) h w < img_size L * img_size L"
    using hw by (rule index_n_less)
  have rd_i: "bo + ((?m + i) * ?sp + ?c) < length X" if "i < Suc (extra_maps L)" for i
  proof -
    have "?m + i < ?s * ?s + extra_maps L" using m that by simp
    from mod_mult_add_less [OF this c] rd show ?thesis by simp
  qed
  show ?thesis
  proof (cases "?m = ?s * ?s - 1")
    case True
    have "for_loop (Suc (extra_maps L))
            (\<lambda>i sum. rd X (bo + ((?m + i) * ?sp + ?c)) \<bind> (\<lambda>x. Some (sum + x))) 0 =
          Some (0 + (\<Sum>i<Suc (extra_maps L). X ! (bo + ((?m + i) * ?sp + ?c))))"
      by (rule for_loop_sum) (rule rd_i)
    with True n wr show ?thesis
      by (simp add: fwd_avg_px_def fwd_val_def Let_def)
  next
    case False
    have "bo + (?m * ?sp + ?c) < length X" using rd_i [of 0] by simp
    with False n wr show ?thesis
      by (simp add: fwd_avg_px_def fwd_val_def Let_def)
  qed
qed

lemma fwd_copy_map_eq:
  fixes X T :: "'a::field buffer"
  assumes L: "layer_ok L b"
    and rd: "bo + scale L * scale L * count2 b \<le> length X"
    and wr: "to + img_size L * img_size L \<le> length T"
  shows "fwd_copy_map L (count2 b) X bo to T =
         Some (ovr (\<lambda>j. to \<le> j \<and> j < to + img_size L * img_size L)
                (\<lambda>j. fwd_val L (count2 b) X bo False ((j - to) div img_size L) ((j - to) mod img_size L)) T)"
  unfolding fwd_copy_map_def
proof (rule for_loop_plane)
  fix h w and ys :: "'a list"
  assume "h < img_size L" "w < img_size L" "length ys = length T"
  with assms show "fwd_copy_px L (count2 b) X bo to h w ys =
    Some (ys[to + index_n (img_size L) h w := fwd_val L (count2 b) X bo False
      ((to + index_n (img_size L) h w - to) div img_size L) ((to + index_n (img_size L) h w - to) mod img_size L)])"
    by (simp add: fwd_copy_px_eq index_n_div_mod)
qed

lemma fwd_avg_map_eq:
  fixes X T :: "'a::field buffer"
  assumes L: "layer_ok L b"
    and rd: "bo + (scale L * scale L + extra_maps L) * count2 b \<le> length X"
    and wr: "to + img_size L * img_size L \<le> length T"
  shows "fwd_avg_map L (count2 b) (extra_maps L) X bo to T =
         Some (ovr (\<lambda>j. to \<le> j \<and> j < to + img_size L * img_size L)
                (\<lambda>j. fwd_val L (count2 b) X bo True ((j - to) div img_size L) ((j - to) mod img_size L)) T)"
  unfolding fwd_avg_map_def
proof (rule for_loop_plane)
  fix h w and ys :: "'a list"
  assume "h < img_size L" "w < img_size L" "length ys = length T"
  with assms show "fwd_avg_px L (count2 b) (extra_maps L) X bo to h w ys =
    Some (ys[to + index_n (img_size L) h w := fwd_val L (count2 b) X bo True
      ((to + index_n (img_size L) h w - to) div img_size L) ((to + index_n (img_size L) h w - to) mod img_size L)])"
    by (simp add: fwd_avg_px_eq index_n_div_mod)
qed

lemma fwd_group_eq:
  fixes X :: "'a::field buffer"
  assumes L: "layer_ok L b" and n: "n < group L"
    and rd: "b_off st + (scale L * scale L + (if n = group L - 1 then extra_maps L else 0)) * count2 b
               \<le> length X"
    and wr: "t_off st + img_size L * img_size L \<le> length (buf st)"
  shows "fwd_group L (count2 b) (img_size L * img_size L) (extra_maps L) X n st =
     Some (st\<lparr>b_off := b_off st + (if n = group L - 1 \<and> extra_maps L \<noteq> 0 then 0 else scale L * scale L * count2 b),
              t_off := t_off st + (if n = group L - 1 \<and> extra_maps L \<noteq> 0 then 0 else img_size L * img_size L),
              buf := ovr (\<lambda>j. t_off st \<le> j \<and> j < t_off st + img_size L * img_size L)
                 (\<lambda>j. fwd_val L (count2 b) X (b_off st) (n = group L - 1 \<and> extra_maps L \<noteq> 0)
                        ((j - t_off st) div img_size L) ((j - t_off st) mod img_size L)) (buf st)\<rparr>)"
proof (cases "n = group L - 1 \<and> extra_maps L \<noteq> 0")
  case True
  with rd have "b_off st + (scale L * scale L + extra_maps L) * count2 b \<le> length X" by simp
  from fwd_avg_map_eq [OF L this wr] True show ?thesis
    by (simp add: fwd_group_def)
next
  case False
  from rd have "b_off st + scale L * scale L * count2 b \<le> length X"
    by (simp split: if_splits add: add_mult_distrib)
  from fwd_copy_map_eq [OF L this wr] False show ?thesis
    by (auto simp: fwd_group_def)
qed

section \<open>One batch: the pointer walk\<close>

lemma fwd_batch_eq:
  fixes X :: "'a::field buffer" and st :: "'a ptr_state"
  assumes L: "layer_ok L b"
    and rd: "b_off st + ch_ori L * count2 b \<le> length X"
    and wr: "t_off st + group L * (img_size L * img_size L) \<le> length (buf st)"
  defines "d \<equiv> (if extra_maps L = 0 then 0 else 1::nat)"
  shows "for_loop (group L) (fwd_group L (count2 b) (img_size L * img_size L) (extra_maps L) X) st =
     Some (st\<lparr>b_off := b_off st + (group L - d) * (scale L * scale L) * count2 b,
              t_off := t_off st + (group L - d) * (img_size L * img_size L),
              buf := ovr (\<lambda>j. t_off st \<le> j \<and> j < t_off st + group L * (img_size L * img_size L))
                       (\<lambda>j. fwd_batch_val L (count2 b) X (b_off st) (j - t_off st)) (buf st)\<rparr>)"
proof -
  let ?G = "group L" and ?q = "scale L * scale L" and ?sp = "count2 b"
    and ?Q = "img_size L * img_size L" and ?bo = "b_off st" and ?to = "t_off st"
  let ?V = "\<lambda>j. fwd_batch_val L ?sp X ?bo (j - ?to)"
  define T where "T i = st\<lparr>b_off := ?bo + min i (?G - d) * ?q * ?sp,
                           t_off := ?to + min i (?G - d) * ?Q,
                           buf := ovr (\<lambda>j. ?to \<le> j \<and> j < ?to + i * ?Q) ?V (buf st)\<rparr>" for i
  have Q: "0 < ?Q" using layer_ok_dims [OF L] by simp
  have C: "ch_ori L = ?G * ?q + extra_maps L" using layer_ok_channels [OF L] .
  have step: "fwd_group L ?sp ?Q (extra_maps L) X i (T i) = Some (T (Suc i))" if i: "i < ?G" for i
  proof -
    have mi: "min i (?G - d) = i" using i by (simp add: d_def)
    have bo: "b_off (T i) = ?bo + i * ?q * ?sp" and to: "t_off (T i) = ?to + i * ?Q"
      using mi by (simp_all add: T_def)
    have "b_off (T i) + (?q + (if i = ?G - 1 then extra_maps L else 0)) * ?sp
          = ?bo + (i * ?q + (?q + (if i = ?G - 1 then extra_maps L else 0))) * ?sp"
      by (simp add: bo algebra_simps)
    also have "\<dots> \<le> ?bo + ch_ori L * ?sp"
      using group_slab_bound [OF i, of ?q "extra_maps L"] C by simp
    finally have rd_i: "b_off (T i) + (?q + (if i = ?G - 1 then extra_maps L else 0)) * ?sp \<le> length X"
      using rd by simp
    have "t_off (T i) + ?Q = ?to + (i * ?Q + (?Q + 0))" by (simp add: to)
    also have "\<dots> \<le> ?to + ?G * ?Q" using group_slab_bound [OF i, of ?Q 0] by simp
    finally have wr_i: "t_off (T i) + ?Q \<le> length (buf (T i))"
      using wr by (simp add: T_def)
    let ?avg = "i = ?G - 1 \<and> extra_maps L \<noteq> 0"
    have vals: "fwd_val L ?sp X (b_off (T i)) ?avg ((j - t_off (T i)) div img_size L)
                   ((j - t_off (T i)) mod img_size L) = ?V j"
      if "t_off (T i) \<le> j \<and> j < t_off (T i) + ?Q" for j
      using slab_decomp [OF Q, of ?to i j] that
      by (simp add: fwd_batch_val_def bo to Let_def)
    have union: "(t_off (T i) \<le> j \<and> j < t_off (T i) + ?Q \<or> ?to \<le> j \<and> j < ?to + i * ?Q) \<longleftrightarrow>
                 ?to \<le> j \<and> j < ?to + Suc i * ?Q" for j
      by (auto simp: to)
    have offs: "min (Suc i) (?G - d) = (if ?avg then i else Suc i)"
      using i by (auto simp: d_def)
    have bufT: "buf (T i) = ovr (\<lambda>j. ?to \<le> j \<and> j < ?to + i * ?Q) ?V (buf st)"
      by (simp add: T_def)
    have "ovr (\<lambda>j. t_off (T i) \<le> j \<and> j < t_off (T i) + ?Q)
            (\<lambda>j. fwd_val L ?sp X (b_off (T i)) ?avg ((j - t_off (T i)) div img_size L)
                   ((j - t_off (T i)) mod img_size L)) (buf (T i))
          = ovr (\<lambda>j. t_off (T i) \<le> j \<and> j < t_off (T i) + ?Q) ?V (buf (T i))"
      by (rule ovr_cong, simp, rule vals, assumption)
    also have "\<dots> = ovr (\<lambda>j. ?to \<le> j \<and> j < ?to + Suc i * ?Q) ?V (buf st)"
      unfolding bufT ovr_ovr union ..
    also have "\<dots> = buf (T (Suc i))" by (simp add: T_def)
    finally have buf': "ovr (\<lambda>j. t_off (T i) \<le> j \<and> j < t_off (T i) + ?Q)
            (\<lambda>j. fwd_val L ?sp X (b_off (T i)) ?avg ((j - t_off (T i)) div img_size L)
                   ((j - t_off (T i)) mod img_size L)) (buf (T i)) = buf (T (Suc i))" .
    have "b_off (T (Suc i)) = ?bo + (if ?avg then i else Suc i) * ?q * ?sp"
      unfolding T_def offs by simp
    then have bo': "b_off (T i) + (if ?avg then 0 else ?q * ?sp) = b_off (T (Suc i))"
      using bo by (cases ?avg) (auto simp: algebra_simps)
    have "t_off (T (Suc i)) = ?to + (if ?avg then i else Suc i) * ?Q"
      unfolding T_def offs by simp
    then have to': "t_off (T i) + (if ?avg then 0 else ?Q) = t_off (T (Suc i))"
      using to by (cases ?avg) (auto simp: algebra_simps)
    have "T (Suc i) = (T i)\<lparr>b_off := b_off (T (Suc i)), t_off := t_off (T (Suc i)),
                              buf := buf (T (Suc i))\<rparr>"
      by (simp add: T_def)
    then show ?thesis
      unfolding fwd_group_eq [OF L i rd_i wr_i] buf' bo' to' by simp
  qed
  have e: "(\<lambda>j. ?to \<le> j \<and> j < ?to + 0 * ?Q) = (\<lambda>_. False)" by auto
  have T0: "T 0 = st" unfolding T_def e ovr_nothing by simp
  have TG:  "T ?G = st\<lparr>b_off := ?bo + (?G - d) * ?q * ?sp, t_off := ?to + (?G - d) * ?Q,
                     buf := ovr (\<lambda>j. ?to \<le> j \<and> j < ?to + ?G * ?Q) ?V (buf st)\<rparr>"
    by (simp add: T_def)
  have "for_loop ?G (fwd_group L ?sp ?Q (extra_maps L) X) (T 0) = Some (T ?G)"
    by (rule for_loop_trace) (rule step)
  then show ?thesis by (simp only: T0 TG)
qed

lemma fwd_batch_val_ref:
  fixes X :: "'a::field buffer"
  assumes L: "layer_ok L b" and j: "j < batch L * group L * (img_size L * img_size L)"
  shows "fwd_batch_val L (count2 b) X (j div (group L * (img_size L * img_size L)) * ch_ori L * count2 b)
            (j mod (group L * (img_size L * img_size L))) = enlarge_ref L X ! j"
proof -
  note d = layer_ok_dims [OF L]
  let ?S = "img_size L" and ?s = "scale L" and ?sp = "count2 b" and ?e = "extra_maps L"
  let ?m = "j div (group L * (?S * ?S))" and ?n = "j div (?S * ?S) mod group L"
  let ?h = "j div ?S mod ?S" and ?w = "j mod ?S"
  have dec: "(j mod (group L * (?S * ?S))) div (?S * ?S) = ?n"
            "(j mod (group L * (?S * ?S))) mod (?S * ?S) div ?S = ?h"
            "(j mod (group L * (?S * ?S))) mod (?S * ?S) mod ?S = ?w"
    by (simp_all add: decode_mod_div [of j "group L" "?S * ?S"] decode_mod_div [of j ?S ?S])
  have sp: "h_ori L * w_ori L = ?sp" using L by (simp add: layer_ok_def count2_def)
  let ?loc = "map_ind_o ?s ?h ?w" and ?cell = "cell_o ?s (w_ori L) ?h ?w"
  have idx: "?m * ch_ori L * ?sp + ?n * (?s * ?s) * ?sp + (?loc + i) * ?sp + ?cell =
             (?m * ch_ori L + (?n * (?s * ?s) + ?loc) + i) * ?sp + ?cell" for i
    by (simp add: algebra_simps)
  have sums: "(\<Sum>i<Suc ?e. X ! (?m * ch_ori L * ?sp + ?n * (?s * ?s) * ?sp + ((?loc + i) * ?sp + ?cell))) =
              (\<Sum>i\<le>?e. X ! ((?m * ch_ori L + (?n * (?s * ?s) + ?loc) + i) * ?sp + ?cell))"
    unfolding lessThan_Suc_atMost by (rule sum.cong) (simp_all only: add.assoc [symmetric] idx)
  have one: "X ! (?m * ch_ori L * ?sp + ?n * (?s * ?s) * ?sp + (?loc * ?sp + ?cell)) =
             X ! ((?m * ch_ori L + (?n * (?s * ?s) + ?loc)) * ?sp + ?cell)"
  proof -
    have "?m * ch_ori L * ?sp + ?n * (?s * ?s) * ?sp + (?loc * ?sp + ?cell) =
          (?m * ch_ori L + (?n * (?s * ?s) + ?loc)) * ?sp + ?cell"
      by (simp add: algebra_simps)
    then show ?thesis by (rule arg_cong)
  qed
  have lhs: "fwd_batch_val L ?sp X (?m * ch_ori L * ?sp) (j mod (group L * (?S * ?S))) =
     (if (?n = group L - 1 \<and> ?e \<noteq> 0) \<and> ?loc = ?s * ?s - 1
      then (\<Sum>i<Suc ?e. X ! (?m * ch_ori L * ?sp + ?n * (?s * ?s) * ?sp + ((?loc + i) * ?sp + ?cell)))
           / of_nat (?e + 1)
      else X ! (?m * ch_ori L * ?sp + ?n * (?s * ?s) * ?sp + (?loc * ?sp + ?cell)))"
    unfolding fwd_batch_val_def fwd_val_def Let_def dec ..
  have rhs: "enlarge_ref L X ! j =
     (if ?n = group L - 1 \<and> 0 < ?e \<and> ?loc = ?s * ?s - 1
      then (\<Sum>i\<le>?e. X ! ((?m * ch_ori L + (?n * (?s * ?s) + ?loc) + i) * ?sp + ?cell)) / of_nat (?e + 1)
      else X ! ((?m * ch_ori L + (?n * (?s * ?s) + ?loc)) * ?sp + ?cell))"
    using j unfolding enlarge_ref_def Let_def sp [symmetric] map_ind_o_def cell_o_def
    by (simp add: mult.assoc)
  show ?thesis unfolding lhs rhs sums one by simp
qed

section \<open>The whole pass\<close>

lemma Forward_cpu_eq_ref:
  fixes bottom top_blob :: "'a::field blob"
  assumes B: "bottom_ok L bottom" and T: "top_ok L top_blob"
    and good: "batch L \<le> 1 \<or> extra_maps L = 0"
  shows "Forward_cpu L bottom top_blob = Some (top_blob\<lparr>data := enlarge_ref L (data bottom)\<rparr>)"
proof -
  have L: "layer_ok L bottom" using B by (simp add: bottom_ok_def)
  let ?X = "data bottom" and ?N = "batch L" and ?G = "group L" and ?C = "ch_ori L"
    and ?Q = "img_size L * img_size L" and ?sp = "count2 bottom" and ?q = "scale L * scale L"
    and ?e = "extra_maps L"
  define d where "d = (if ?e = 0 then 0 else 1::nat)"
  define K where "K = ?G * ?Q"
  define F where "F = (\<lambda>m j. fwd_batch_val L ?sp ?X (m * ?C * ?sp) (j - m * K))"
  have lenX: "length ?X = ?N * ?C * ?sp" using count_bottom [OF B] .
  have lenT: "length (data top_blob) = ?N * K" using count_top [OF T] by (simp add: K_def)
  have C: "?C = ?G * ?q + ?e" using layer_ok_channels [OF L] .
  have run: "for_loop ?N (\<lambda>m. for_loop ?G (fwd_group L ?sp ?Q ?e ?X))
               \<lparr>b_off = 0, t_off = 0, buf = data top_blob\<rparr> =
             Some \<lparr>b_off = ?N * ((?G - d) * ?q * ?sp), t_off = ?N * ((?G - d) * ?Q),
                   buf = ovr (\<lambda>j. j < ?N * K) (\<lambda>j. F (j div K) j) (data top_blob)\<rparr>"
  proof (rule for_loop_batches)
    fix m and st :: "'a ptr_state"
    assume m: "m < ?N" and bo: "b_off st = m * ((?G - d) * ?q * ?sp)" and to: "t_off st = m * ((?G - d) * ?Q)"
      and len: "length (buf st) = length (data top_blob)"
    have hm: "m * ((?G - d) * ?q * ?sp) = m * ?C * ?sp" "m * ((?G - d) * ?Q) = m * K"
      using good m C by (auto simp: d_def K_def)
    have rd: "b_off st + ?C * ?sp \<le> length ?X"
      using batch_slab_le [OF m, of "?C * ?sp"] lenX unfolding bo hm(1) by (simp add: mult.assoc)
    have wr: "t_off st + ?G * ?Q \<le> length (buf st)"
      using batch_slab_le [OF m, of K] len lenT unfolding to hm(2) by (simp add: K_def)
    show "for_loop ?G (fwd_group L ?sp ?Q ?e ?X) st =
          Some (st\<lparr>b_off := m * ((?G - d) * ?q * ?sp) + (?G - d) * ?q * ?sp,
                   t_off := m * ((?G - d) * ?Q) + (?G - d) * ?Q,
                   buf := ovr (\<lambda>j. m * K \<le> j \<and> j < m * K + K) (F m) (buf st)\<rparr>)"
      using fwd_batch_eq [OF L rd wr] unfolding d_def [symmetric] bo to hm K_def [symmetric]
      by (simp add: F_def)
  qed
  have "ovr (\<lambda>j. j < ?N * K) (\<lambda>j. F (j div K) j) (data top_blob) = enlarge_ref L ?X"
  proof (rule nth_equalityI)
    show "length (ovr (\<lambda>j. j < ?N * K) (\<lambda>j. F (j div K) j) (data top_blob)) = length (enlarge_ref L ?X)"
      using lenT by (simp add: enlarge_ref_def Let_def K_def mult.assoc)
    fix j assume "j < length (ovr (\<lambda>j. j < ?N * K) (\<lambda>j. F (j div K) j) (data top_blob))"
    then have j: "j < ?N * ?G * ?Q" and jK: "j < ?N * K" using lenT by (simp_all add: K_def mult.assoc)
    have "j - j div K * K = j mod K" by (simp add: minus_div_mult_eq_mod)
    then show "ovr (\<lambda>j. j < ?N * K) (\<lambda>j. F (j div K) j) (data top_blob) ! j = enlarge_ref L ?X ! j"
      using jK lenT fwd_batch_val_ref [OF L j, of ?X] by (simp add: F_def K_def)
  qed
  with run show ?thesis by (simp add: Forward_cpu_def count2_top [OF T])
qed

lemma enlarge_ref_nth:
  "j < batch L * group L * img_size L * img_size L \<Longrightarrow>
   enlarge_ref L X ! j =
     (let S = img_size L; s = scale L; W = w_ori L; sp = h_ori L * w_ori L;
          G = group L; C = ch_ori L; e = extra_maps L;
          m = j div (G * S * S); n = j div (S * S) mod G;
          h = j div S mod S; w = j mod S;
          loc = h mod s * s + w mod s; c = n * (s * s) + loc;
          p = h div s * W + w div s
      in if n = G - 1 \<and> 0 < e \<and> loc = s * s - 1
         then (\<Sum>i\<le>e. X ! ((m * C + c + i) * sp + p)) / of_nat (e + 1)
         else X ! ((m * C + c) * sp + p))"
  unfolding enlarge_ref_def by (simp only: Let_def length_map length_upt nth_map nth_upt) simp

lemma fwd_run:
  fixes bottom top_blob :: "'a::field blob"
  assumes B: "bottom_ok L bottom" and T: "top_ok L top_blob"
  defines "K \<equiv> group L - (if extra_maps L = 0 then 0 else 1)"
  shows "\<exists>ys. Forward_cpu L bottom top_blob = Some (top_blob\<lparr>data := ys\<rparr>) \<and>
              length ys = length (data top_blob) \<and>
              (\<forall>j. batch L * (K * (img_size L * img_size L)) + group L * (img_size L * img_size L)
                     \<le> j + K * (img_size L * img_size L) \<longrightarrow> j < length ys \<longrightarrow> ys ! j = data top_blob ! j)"
proof -
  have L: "layer_ok L bottom" using B by (simp add: bottom_ok_def)
  let ?X = "data bottom" and ?N = "batch L" and ?G = "group L" and ?C = "ch_ori L"
    and ?Q = "img_size L * img_size L" and ?sp = "count2 bottom" and ?q = "scale L * scale L"
    and ?e = "extra_maps L"
  define P where "P m st \<longleftrightarrow> b_off st = m * (K * ?q * ?sp) \<and> t_off st = m * (K * ?Q) \<and>
      length (buf st) = length (data top_blob) \<and>
      (\<forall>j. m * (K * ?Q) + ?G * ?Q \<le> j + K * ?Q \<longrightarrow> j < length (buf st) \<longrightarrow>
           buf st ! j = data top_blob ! j)" for m and st :: "'a ptr_state"
  have lenX: "length ?X = ?N * (?C * ?sp)" using count_bottom [OF B] by (simp add: mult.assoc)
  have lenT: "length (data top_blob) = ?N * (?G * ?Q)" using count_top [OF T] by simp
  have Cq: "K * ?q \<le> ?C" using layer_ok_channels [OF L] by (simp add: K_def diff_mult_distrib)
  have KG: "K * ?Q \<le> ?G * ?Q" by (simp add: K_def)
  have step: "\<exists>st'. for_loop ?G (fwd_group L ?sp ?Q ?e ?X) st = Some st' \<and> P (Suc m) st'"
    if m: "m < ?N" and P: "P m st" for m st
  proof -
    have "b_off st + ?C * ?sp \<le> m * (?C * ?sp) + ?C * ?sp"
      using P mult_le_mono1 [OF Cq, of ?sp] by (simp add: P_def mult.assoc)
    also have "\<dots> \<le> length ?X" using batch_slab_le [OF m] lenX by simp
    finally have rd: "b_off st + ?C * ?sp \<le> length ?X" .
    have "t_off st + ?G * ?Q \<le> m * (?G * ?Q) + ?G * ?Q"
      using P KG by (simp add: P_def mult_le_mono2)
    also have "\<dots> \<le> length (buf st)" using batch_slab_le [OF m] lenT P by (simp add: P_def)
    finally have wr: "t_off st + ?G * ?Q \<le> length (buf st)" .
    let ?st' = "st\<lparr>b_off := b_off st + K * ?q * ?sp, t_off := t_off st + K * ?Q,
                   buf := ovr (\<lambda>j. t_off st \<le> j \<and> j < t_off st + ?G * ?Q)
                       (\<lambda>j. fwd_batch_val L ?sp ?X (b_off st) (j - t_off st)) (buf st)\<rparr>"
    have run: "for_loop ?G (fwd_group L ?sp ?Q ?e ?X) st = Some ?st'"
      using fwd_batch_eq [OF L rd wr] unfolding K_def .
    have "P (Suc m) ?st'"
      unfolding P_def
    proof (intro conjI allI impI)
      fix j assume j: "Suc m * (K * ?Q) + ?G * ?Q \<le> j + K * ?Q" "j < length (buf ?st')"
      then have "\<not> (t_off st \<le> j \<and> j < t_off st + ?G * ?Q)" "m * (K * ?Q) + ?G * ?Q \<le> j + K * ?Q"
        using P by (auto simp: P_def)
      with P j show "buf ?st' ! j = data top_blob ! j" by (simp add: P_def)
    qed (use P in \<open>simp_all add: P_def algebra_simps\<close>)
    with run show ?thesis by blast
  qed
  have "P 0 \<lparr>b_off = 0, t_off = 0, buf = data top_blob\<rparr>" by (simp add: P_def)
  from for_loop_inv [of ?N P "\<lambda>m. for_loop ?G (fwd_group L ?sp ?Q ?e ?X)", OF step this]
  obtain st where "for_loop ?N (\<lambda>m. for_loop ?G (fwd_group L ?sp ?Q ?e ?X))
                     \<lparr>b_off = 0, t_off = 0, buf = data top_blob\<rparr> = Some st" "P ?N st"
    by blast
  then show ?thesis by (auto simp: Forward_cpu_def count2_top [OF T] P_def)
qed


section \<open>Properties of the forward pass\<close>

text \<open>
  C1. Refinement: for a configured layer and blobs of the configured shapes, when there is
  one image or no remainder map, \<open>Forward_cpu\<close> succeeds and writes exactly the
  spec's depth-to-space map with remainder averaging, \<open>enlarge_ref\<close>.
\<close>

theorem Forward_cpu_refines:
  fixes bottom top_blob :: "'a::field blob"
  assumes "bottom_ok L bottom" and "top_ok L top_blob" and "batch L \<le> 1 \<or> extra_maps L = 0"
  shows "Forward_cpu L bottom top_blob = Some (top_blob\<lparr>data := enlarge_ref L (data bottom)\<rparr>)"
  using assms by (rule Forward_cpu_eq_ref)

text \<open>
  The spec's concrete scenario (\<open>N = 1, C = 4, h_ori = 2, S = 4\<close>): output pixel
  \<open>(h, w)\<close> is input channel \<open>(h mod 2)*2 + w mod 2\<close> at \<open>(h div 2, w div 2)\<close>.
\<close>

theorem Forward_cpu_refines_witness:
  "Forward_cpu layer_ex bottom_ex (top_ex :: 'a::field blob) =
   Some (top_ex\<lparr>data := map of_nat [0, 4, 1, 5, 8, 12, 9, 13, 2, 6, 3, 7, 10, 14, 11, 15]\<rparr>)"
proof -
  have h: "bottom_ok layer_ex (bottom_ex :: 'a blob)" "top_ok layer_ex (top_ex :: 'a blob)"
          "batch layer_ex \<le> 1 \<or> extra_maps layer_ex = 0"
    by (simp_all add: bottom_ok_def top_ok_def layer_ok_def count_def layer_ex_def bottom_ex_def top_ex_def)
  have "enlarge_ref layer_ex (data (bottom_ex :: 'a blob)) =
        map of_nat [0, 4, 1, 5, 8, 12, 9, 13, 2, 6, 3, 7, 10, 14, 11, 15]"
    by (simp add: enlarge_ref_def layer_ex_def bottom_ex_def extra_maps_def Let_def upt_rec)
  with Forward_cpu_refines [OF h] show ?thesis by simp
qed

text \<open>
  C7. Safety: for a configured layer and blobs of the configured shapes, every read and
  write of \<open>Forward_cpu\<close> is in range, for any number of images and any remainder
  (so the pass returns, with a top buffer of the same length).
\<close>

theorem Forward_cpu_total:
  fixes bottom top_blob :: "'a::field blob"
  assumes "bottom_ok L bottom" and "top_ok L top_blob"
  shows "\<exists>ys. Forward_cpu L bottom top_blob = Some (top_blob\<lparr>data := ys\<rparr>) \<and>
              length ys = length (data top_blob)"
  using fwd_run [OF assms] by blast

theorem Forward_cpu_total_witness:
  "\<exists>ys. Forward_cpu layer_bug bottom_bug (top_bug :: 'a::field blob) = Some (top_bug\<lparr>data := ys\<rparr>) \<and>
        length ys = 8"
proof -
  have h: "bottom_ok layer_bug (bottom_bug :: 'a blob)" "top_ok layer_bug (top_bug :: 'a blob)"
    by (simp_all add: bottom_ok_def top_ok_def layer_ok_def count_def layer_bug_def bottom_bug_def top_bug_def)
  from Forward_cpu_total [OF h] show ?thesis by (simp add: top_bug_def)
qed

text \<open>
  C3. The remainder branch (lines 70--96) advances neither \<open>bottom_data\<close> nor
  \<open>top_data\<close>, so with a remainder map each image after the first starts one group
  too early: the last \<open>(N - 1)*img_size\<^sup>2\<close> outputs are never written and keep
  whatever the top buffer held. With two images this contradicts the spec.
\<close>

theorem Forward_cpu_stale_tail:
  fixes bottom top_blob :: "'a::field blob"
  assumes "bottom_ok L bottom" and "top_ok L top_blob" and "0 < extra_maps L"
  shows "\<exists>ys. Forward_cpu L bottom top_blob = Some (top_blob\<lparr>data := ys\<rparr>) \<and>
           (\<forall>j. (batch L - 1) * ((group L - 1) * (img_size L * img_size L))
                 + group L * (img_size L * img_size L) \<le> j \<and> j < length ys \<longrightarrow>
                ys ! j = data top_blob ! j)"
proof -
  let ?K = "group L - 1" and ?Q = "img_size L * img_size L"
  from fwd_run [OF assms(1,2)] assms(3) obtain ys where
    ys: "Forward_cpu L bottom top_blob = Some (top_blob\<lparr>data := ys\<rparr>)"
    and tail: "\<forall>j. batch L * (?K * ?Q) + group L * ?Q \<le> j + ?K * ?Q \<longrightarrow> j < length ys \<longrightarrow>
                  ys ! j = data top_blob ! j"
    by auto
  have "batch L * (?K * ?Q) + group L * ?Q \<le> j + ?K * ?Q"
    if "(batch L - 1) * (?K * ?Q) + group L * ?Q \<le> j" for j
    using that by (cases "batch L") (simp_all add: algebra_simps)
  with ys tail show ?thesis by blast
qed

theorem Forward_cpu_stale_tail_witness:
  "Forward_cpu layer_bug bottom_bug (top_bug :: 'a::field blob) \<noteq>
   Some (top_bug\<lparr>data := enlarge_ref layer_bug (data (bottom_bug :: 'a blob))\<rparr>)"
proof
  assume eq: "Forward_cpu layer_bug bottom_bug (top_bug :: 'a blob) =
              Some (top_bug\<lparr>data := enlarge_ref layer_bug (data (bottom_bug :: 'a blob))\<rparr>)"
  have h: "bottom_ok layer_bug (bottom_bug :: 'a blob)" "top_ok layer_bug (top_bug :: 'a blob)"
          "0 < extra_maps layer_bug"
    by (simp_all add: bottom_ok_def top_ok_def layer_ok_def count_def extra_maps_def
                      layer_bug_def bottom_bug_def top_bug_def)
  from Forward_cpu_stale_tail [OF h] obtain ys where
    ys: "Forward_cpu layer_bug bottom_bug (top_bug :: 'a blob) = Some (top_bug\<lparr>data := ys\<rparr>)"
    and tail: "\<forall>j. (batch layer_bug - 1) * ((group layer_bug - 1) * (img_size layer_bug * img_size layer_bug))
                   + group layer_bug * (img_size layer_bug * img_size layer_bug) \<le> j \<and> j < length ys \<longrightarrow>
                  ys ! j = data (top_bug :: 'a blob) ! j"
    by blast
  from eq ys have "(top_bug :: 'a blob)\<lparr>data := ys\<rparr> =
                    top_bug\<lparr>data := enlarge_ref layer_bug (data (bottom_bug :: 'a blob))\<rparr>" by simp
  then have "data ((top_bug :: 'a blob)\<lparr>data := ys\<rparr>) =
             data (top_bug\<lparr>data := enlarge_ref layer_bug (data (bottom_bug :: 'a blob))\<rparr>)"
    by (rule arg_cong)
  then have "ys = enlarge_ref layer_bug (data (bottom_bug :: 'a blob))" by simp
  moreover have "enlarge_ref layer_bug (data (bottom_bug :: 'a blob)) ! 4 = 1"
    by (simp add: enlarge_ref_def layer_bug_def bottom_bug_def extra_maps_def Let_def nth_append)
  moreover have "length (enlarge_ref layer_bug (data (bottom_bug :: 'a blob))) = 8"
    by (simp add: enlarge_ref_def layer_bug_def Let_def)
  ultimately have "(1::'a) = 0"
    using tail by (simp add: layer_bug_def top_bug_def)
  then show False by simp
qed

text \<open>
  C9. Averaging: with one image and a remainder, the last pixel of every cell's block in
  the last output map is the mean of the \<open>extra_maps + 1\<close> input maps from
  \<open>group*scale\<^sup>2 - 1\<close> on at that cell.
\<close>

theorem Forward_cpu_averages:
  fixes bottom top_blob :: "'a::field blob"
  assumes B: "bottom_ok L bottom" and T: "top_ok L top_blob" and N: "batch L = 1"
    and G: "0 < group L" and e: "0 < extra_maps L" and p: "p < count2 bottom"
  shows "\<exists>t'. Forward_cpu L bottom top_blob = Some t' \<and>
     data t' ! ((group L - 1) * (img_size L * img_size L) +
        index_n (img_size L) (p div w_ori L * scale L + (scale L - 1)) (p mod w_ori L * scale L + (scale L - 1))) =
     (\<Sum>i\<le>extra_maps L. data bottom ! ((group L * (scale L * scale L) - 1 + i) * count2 bottom + p))
     / of_nat (extra_maps L + 1)"
proof -
  have L: "layer_ok L bottom" using B by (simp add: bottom_ok_def)
  note dm = layer_ok_dims [OF L]
  let ?s = "scale L" and ?W = "w_ori L" and ?S = "img_size L" and ?G = "group L" and ?sp = "count2 bottom"
  let ?h = "p div ?W * ?s + (?s - 1)" and ?w = "p mod ?W * ?s + (?s - 1)"
  let ?j = "((0 * ?G + (?G - 1)) * ?S + ?h) * ?S + ?w"
  have s1: "?s - 1 < ?s" using dm by simp
  have pW: "p div ?W < ?W" "p mod ?W < ?W" using p dm by (simp_all add: less_mult_imp_div_less)
  have hw: "?h < ?S" "?w < ?S" using mod_mult_add_less [OF pW(1) s1] mod_mult_add_less [OF pW(2) s1] dm
    by (simp_all add: mult.commute)
  have n: "?G - 1 < ?G" using G by simp
  note dec = out_pos_decode [OF n hw, of 0]
  have j: "?j < batch L * ?G * ?S * ?S"
  proof -
    have "(0 * ?G + (?G - 1)) * ?S + ?h < 1 * ?G * ?S" using mod_mult_add_less [OF n hw(1)] by simp
    from mod_mult_add_less [OF this hw(2)] show ?thesis using N by simp
  qed
  have hm: "?h div ?s = p div ?W" "?h mod ?s = ?s - 1" "?w div ?s = p mod ?W" "?w mod ?s = ?s - 1"
    using div_mult_mod_split [OF dm(3) s1] by simp_all
  have loc: "(?s - 1) * ?s + (?s - 1) = ?s * ?s - 1" using dm by (cases ?s) simp_all
  have cell: "p div ?W * ?W + p mod ?W = p" by simp
  have c: "(?G - 1) * (?s * ?s) + (?s * ?s - 1) = ?G * (?s * ?s) - 1" using last_slot(1) [OF G] dm by simp
  have sp: "h_ori L * ?W = ?sp" using L by (simp add: layer_ok_def count2_def)
  have "enlarge_ref L (data bottom) ! ?j =
        (\<Sum>i\<le>extra_maps L. data bottom ! ((?G * (?s * ?s) - 1 + i) * ?sp + p)) / of_nat (extra_maps L + 1)"
    using e unfolding enlarge_ref_nth [OF j] Let_def dec hm loc cell c sp by simp
  moreover have "?j = (?G - 1) * (?S * ?S) + index_n ?S ?h ?w" by (simp add: index_n_def algebra_simps)
  ultimately show ?thesis
    using Forward_cpu_eq_ref [OF B T] N by simp
qed

theorem Forward_cpu_averages_witness:
  "\<exists>t'. Forward_cpu layer_rem bottom_rem (top_rem :: 'a::field blob) = Some t' \<and>
        data t' ! 3 = (4 + 5) / 2"
proof -
  have h: "bottom_ok layer_rem (bottom_rem :: 'a blob)" "top_ok layer_rem (top_rem :: 'a blob)"
          "batch layer_rem = 1" "0 < group layer_rem" "0 < extra_maps layer_rem"
          "0 < count2 (bottom_rem :: 'a blob)"
    by (simp_all add: bottom_ok_def top_ok_def layer_ok_def count_def count2_def extra_maps_def
                      layer_rem_def bottom_rem_def top_rem_def)
  from Forward_cpu_averages [OF h] show ?thesis
    by (simp add: layer_rem_def bottom_rem_def count2_def index_n_def extra_maps_def)
qed

end
