(* ===== verification/Enlarge_Backward.thy ===== *)
theory Enlarge_Backward
  imports Enlarge_Forward
begin

text \<open>
  \<open>EnlargeLayer::Backward_cpu\<close> (lines 101--161 of \<open>src/enlarge_layer.cpp\<close>) and the
  adjoint map it implements. The structure is the forward pass's with the roles of the
  buffers exchanged: each output gradient is read from \<open>top_diff\<close> and assigned to the
  input positions it was computed from in \<open>bottom_diff\<close>; the averaged position hands
  \<open>top_diff / (extra_maps + 1)\<close> to each of its \<open>extra_maps + 1\<close> inputs.
\<close>

section \<open>The code\<close>

text \<open>Lines 124--126.\<close>

definition bwd_copy_px :: "enlarge_layer \<Rightarrow> nat \<Rightarrow> 'a buffer \<Rightarrow> nat \<Rightarrow> nat \<Rightarrow> nat \<Rightarrow> nat \<Rightarrow>
                           'a buffer \<Rightarrow> 'a buffer option" where
  "bwd_copy_px L sp_os top_diff bo to h w bottom_diff =
     (let index_n = index_n (img_size L) h w;
          index_o = index_o (scale L) (w_ori L) sp_os h w
      in do { v \<leftarrow> rd top_diff (to + index_n); wr bottom_diff (bo + index_o) v })"

text \<open>Lines 138--153: the assignment loop of lines 148--152 writes \<open>ave_diff\<close> to each map.\<close>

definition bwd_avg_px :: "enlarge_layer \<Rightarrow> nat \<Rightarrow> nat \<Rightarrow> 'a::field buffer \<Rightarrow> nat \<Rightarrow> nat \<Rightarrow>
                          nat \<Rightarrow> nat \<Rightarrow> 'a buffer \<Rightarrow> 'a buffer option" where
  "bwd_avg_px L sp_os extra top_diff bo to h w bottom_diff =
     (let s = scale L;
          index_n = index_n (img_size L) h w;
          map_ind_o = map_ind_o s h w;
          cell = cell_o s (w_ori L) h w
      in if map_ind_o \<noteq> s * s - 1 then
           do { v \<leftarrow> rd top_diff (to + index_n);
                wr bottom_diff (bo + (map_ind_o * sp_os + cell)) v }
         else
           do { d \<leftarrow> rd top_diff (to + index_n);
                let ave_diff = d / of_nat (extra + 1);
                for_loop (Suc extra)
                  (\<lambda>i bd. wr bd (bo + ((map_ind_o + i) * sp_os + cell)) ave_diff) bottom_diff })"

text \<open>Lines 120--128 and 134--156.\<close>

definition bwd_copy_map :: "enlarge_layer \<Rightarrow> nat \<Rightarrow> 'a buffer \<Rightarrow> nat \<Rightarrow> nat \<Rightarrow>
                            'a buffer \<Rightarrow> 'a buffer option" where
  "bwd_copy_map L sp_os top_diff bo to =
     for_loop (img_size L) (\<lambda>h. for_loop (img_size L) (\<lambda>w. bwd_copy_px L sp_os top_diff bo to h w))"

definition bwd_avg_map :: "enlarge_layer \<Rightarrow> nat \<Rightarrow> nat \<Rightarrow> 'a::field buffer \<Rightarrow> nat \<Rightarrow> nat \<Rightarrow>
                           'a buffer \<Rightarrow> 'a buffer option" where
  "bwd_avg_map L sp_os extra top_diff bo to =
     for_loop (img_size L) (\<lambda>h. for_loop (img_size L) (\<lambda>w. bwd_avg_px L sp_os extra top_diff bo to h w))"

text \<open>
  Lines 118--157: one group; a complete group advances \<open>bottom_diff\<close> and
  \<open>top_diff\<close> (lines 129--130), the remainder branch neither.
\<close>

definition bwd_group :: "enlarge_layer \<Rightarrow> nat \<Rightarrow> nat \<Rightarrow> nat \<Rightarrow> 'a::field buffer \<Rightarrow> nat \<Rightarrow>
                         'a ptr_state \<Rightarrow> 'a ptr_state option" where
  "bwd_group L sp_os sp_ns extra top_diff n st =
     (if n \<noteq> group L - 1 \<or> extra = 0 then
        do { t \<leftarrow> bwd_copy_map L sp_os top_diff (b_off st) (t_off st) (buf st);
             Some (st\<lparr>b_off := b_off st + scale L * scale L * sp_os,
                      t_off := t_off st + sp_ns, buf := t\<rparr>) }
      else
        do { t \<leftarrow> bwd_avg_map L sp_os extra top_diff (b_off st) (t_off st) (buf st);
             Some (st\<lparr>buf := t\<rparr>) })"

text \<open>
  Lines 102--161: nothing happens unless \<open>propagate_down[0]\<close>; otherwise the batch and
  group loops from the start of both buffers.
\<close>

definition Backward_cpu :: "enlarge_layer \<Rightarrow> 'a::field blob \<Rightarrow> bool \<Rightarrow> 'a blob \<Rightarrow> 'a blob option" where
  "Backward_cpu L top_blob propagate_down bottom =
     (if propagate_down then
        let sp_ns = count2 top_blob; sp_os = count2 bottom; extra = extra_maps L
        in do { st \<leftarrow> for_loop (batch L)
                       (\<lambda>m. for_loop (group L) (bwd_group L sp_os sp_ns extra (diff top_blob)))
                       \<lparr>b_off = 0, t_off = 0, buf = diff bottom\<rparr>;
                Some (bottom\<lparr>diff := buf st\<rparr>) }
      else Some bottom)"

section \<open>The value assigned to one input gradient\<close>

text \<open>
  What a group's sweep assigns at offset \<open>k\<close> of its input slab, with the top
  pointer at \<open>to\<close>: the gradient of the output pixel that \<open>index_o\<close> maps to \<open>k\<close>;
  in the remainder group (\<open>avg\<close>) the maps from \<open>scale\<^sup>2 - 1\<close> on share the last
  pixel of the block and its gradient divided by \<open>extra_maps + 1\<close>.
\<close>

definition bwd_val :: "enlarge_layer \<Rightarrow> nat \<Rightarrow> 'a::field buffer \<Rightarrow> nat \<Rightarrow> bool \<Rightarrow> nat \<Rightarrow> 'a" where
  "bwd_val L sp dY to avg k =
     (let s = scale L; c = k div sp; k' = min c (s * s - 1) * sp + k mod sp;
          v = dY ! (to + index_n (img_size L) (out_h s (w_ori L) sp k') (out_w s (w_ori L) sp k'))
      in if avg \<and> s * s - 1 \<le> c then v / of_nat (extra_maps L + 1) else v)"

text \<open>
  What one iteration of the batch loop assigns at offset \<open>k\<close> of its input slab of
  \<open>ch_ori * sp\<close> gradients, with the top pointer at \<open>to\<close> on entry: the value of
  the group \<open>n\<close> whose block holds \<open>k\<close>, the remainder maps belonging to the last group.
\<close>

definition bwd_batch_val :: "enlarge_layer \<Rightarrow> nat \<Rightarrow> 'a::field buffer \<Rightarrow> nat \<Rightarrow> nat \<Rightarrow> 'a" where
  "bwd_batch_val L sp dY to k =
     (let q = scale L * scale L * sp; n = min (k div q) (group L - 1)
      in bwd_val L sp dY (to + n * (img_size L * img_size L))
           (n = group L - 1 \<and> extra_maps L \<noteq> 0) (k - n * q))"

section \<open>The specification\<close>

text \<open>
  The spec's section 4.2, written from its words: input gradient \<open>(m, c, cell)\<close>
  receives the output gradient of the position its value was copied to, or, for the
  \<open>extra_maps + 1\<close> channels averaged into the last position of the last group, that
  gradient divided by \<open>extra_maps + 1\<close>.
\<close>

definition enlarge_adj :: "enlarge_layer \<Rightarrow> 'a::field buffer \<Rightarrow> 'a buffer" where
  "enlarge_adj L dY =
     (let S = img_size L; s = scale L; W = w_ori L; sp = h_ori L * w_ori L;
          G = group L; C = ch_ori L; e = extra_maps L
      in map (\<lambda>i. let m = i div (C * sp); c = i div sp mod C; q = i mod sp;
                     avg = (0 < e \<and> (G - 1) * (s * s) + (s * s - 1) \<le> c);
                     n = (if avg then G - 1 else c div (s * s));
                     loc = (if avg then s * s - 1 else c mod (s * s));
                     h = q div W * s + loc div s; w = q mod W * s + loc mod s;
                     j = ((m * G + n) * S + h) * S + w
                 in if avg then dY ! j / of_nat (e + 1) else dY ! j)
             [0..<batch L * C * sp])"

section \<open>Instances\<close>

text \<open>
  Gradients for the instances of the forward pass: the spec's scenario with
  \<open>dY = [0, 1, \<dots>, 15]\<close>, the two-image layer with one remainder map with
  \<open>dY = 1\<close> everywhere.
\<close>

definition top_grad_ex :: "'a::field blob" where
  "top_grad_ex = \<lparr>num = 1, channels = 1, height = 4, width = 4,
                   data = replicate 16 0, diff = map of_nat [0..<16]\<rparr>"

definition top_grad_bug :: "'a::field blob" where
  "top_grad_bug = \<lparr>num = 2, channels = 1, height = 2, width = 2,
                    data = replicate 8 0, diff = replicate 8 1\<rparr>"

section \<open>One pixel, one map, one group\<close>

lemma bwd_val_copy:
  assumes L: "layer_ok L b" and hw: "h < img_size L" "w < img_size L"
    and nav: "\<not> (avg \<and> map_ind_o (scale L) h w = scale L * scale L - 1)"
  shows "bwd_val L (count2 b) dY to avg (index_o (scale L) (w_ori L) (count2 b) h w) =
         dY ! (to + index_n (img_size L) h w)"
proof -
  note d = layer_ok_dims [OF L]
  let ?s = "scale L" and ?W = "w_ori L"
  let ?m = "map_ind_o ?s h w" and ?k = "index_o ?s ?W (?W * ?W) h w"
  have hw': "h < ?s * ?W" "w < ?s * ?W" using hw d by simp_all
  note dm = index_o_div_mod [OF d(3) hw']
  have m: "?m < ?s * ?s" using d(3) by (rule map_ind_o_less)
  have k': "min (?k div (?W * ?W)) (?s * ?s - 1) * (?W * ?W) + ?k mod (?W * ?W) = ?k"
    using m dm by (simp add: index_o_def)
  have c: "\<not> (avg \<and> ?s * ?s - 1 \<le> ?k div (?W * ?W))" using nav m dm by auto
  show ?thesis
    unfolding d(1) bwd_val_def Let_def k' if_not_P [OF c] using out_index_o [OF d(3) hw'] by simp
qed

lemma bwd_val_avg:
  assumes L: "layer_ok L b" and hw: "h < img_size L" "w < img_size L"
    and last: "map_ind_o (scale L) h w = scale L * scale L - 1"
  shows "bwd_val L (count2 b) dY to True
           ((map_ind_o (scale L) h w + i) * count2 b + cell_o (scale L) (w_ori L) h w) =
         dY ! (to + index_n (img_size L) h w) / of_nat (extra_maps L + 1)"
proof -
  note d = layer_ok_dims [OF L]
  let ?s = "scale L" and ?W = "w_ori L"
  let ?m = "map_ind_o ?s h w" and ?c = "cell_o ?s ?W h w"
  let ?k = "(?m + i) * (?W * ?W) + ?c"
  have hw': "h < ?s * ?W" "w < ?s * ?W" using hw d by simp_all
  have cell: "?c < ?W * ?W" using cell_o_less [OF hw'] .
  then have sp: "0 < ?W * ?W" by (rule le_less_trans [OF le0])
  note dm = div_mult_mod_split [OF sp cell, of "?m + i"]
  have k': "min (?k div (?W * ?W)) (?s * ?s - 1) * (?W * ?W) + ?k mod (?W * ?W) =
            index_o ?s ?W (?W * ?W) h w"
    using last dm by (simp add: index_o_def)
  have c: "?s * ?s - 1 \<le> ?k div (?W * ?W)" using dm last by simp
  show ?thesis
    unfolding d(1) bwd_val_def Let_def k' if_P [OF conjI [OF TrueI c]]
    using out_index_o [OF d(3) hw'] by simp
qed

lemma bwd_copy_px_eq:
  fixes dY BD :: "'a::field buffer"
  assumes L: "layer_ok L b" and hw: "h < img_size L" "w < img_size L"
    and rd: "to + img_size L * img_size L \<le> length dY"
    and wr: "bo + scale L * scale L * count2 b \<le> length BD"
  shows "bwd_copy_px L (count2 b) dY bo to h w BD =
         Some (ovr (\<lambda>j. \<exists>k. j = bo + k \<and> k = index_o (scale L) (w_ori L) (count2 b) h w)
                   (\<lambda>j. bwd_val L (count2 b) dY to False (j - bo)) BD)"
proof -
  note d = layer_ok_dims [OF L]
  let ?k = "index_o (scale L) (w_ori L) (count2 b) h w"
  have k: "?k < scale L * scale L * count2 b"
    using index_o_less [of "scale L" h "w_ori L" w] d hw by simp
  have n: "index_n (img_size L) h w < img_size L * img_size L" using hw by (rule index_n_less)
  have v: "dY ! (to + index_n (img_size L) h w) = bwd_val L (count2 b) dY to False (bo + ?k - bo)"
    using bwd_val_copy [OF L hw, of False dY to] by simp
  have "(\<lambda>j. j = bo + ?k) = (\<lambda>j. \<exists>k. j = bo + k \<and> k = ?k)" by auto
  moreover have "BD[bo + ?k := bwd_val L (count2 b) dY to False ?k] =
      ovr (\<lambda>j. j = bo + ?k) (\<lambda>j. bwd_val L (count2 b) dY to False (j - bo)) BD"
    using update_as_ovr [of BD "bo + ?k" "\<lambda>j. bwd_val L (count2 b) dY to False (j - bo)"] by simp
  ultimately show ?thesis using k n rd wr v by (simp add: bwd_copy_px_def)
qed

lemma bwd_avg_px_eq:
  fixes dY BD :: "'a::field buffer"
  assumes L: "layer_ok L b" and hw: "h < img_size L" "w < img_size L"
    and rd: "to + img_size L * img_size L \<le> length dY"
    and wr: "bo + (scale L * scale L + extra_maps L) * count2 b \<le> length BD"
  shows "bwd_avg_px L (count2 b) (extra_maps L) dY bo to h w BD =
         Some (ovr (\<lambda>j. \<exists>k. j = bo + k \<and> avg_target (scale L) (w_ori L) (count2 b) (extra_maps L) h w k)
                   (\<lambda>j. bwd_val L (count2 b) dY to True (j - bo)) BD)"
proof -
  note d = layer_ok_dims [OF L]
  let ?s = "scale L" and ?sp = "count2 b" and ?e = "extra_maps L"
  let ?m = "map_ind_o ?s h w" and ?c = "cell_o ?s (w_ori L) h w"
  let ?F = "\<lambda>j. bwd_val L ?sp dY to True (j - bo)"
  have hw': "h < ?s * w_ori L" "w < ?s * w_ori L" using hw d by simp_all
  have m: "?m < ?s * ?s" using d(3) by (rule map_ind_o_less)
  have c: "?c < ?sp" using cell_o_less [OF hw'] d by simp
  have n: "index_n (img_size L) h w < img_size L * img_size L" using hw by (rule index_n_less)
  have pos: "bo + ((?m + i) * ?sp + ?c) < length BD" if "i < Suc ?e" for i
  proof -
    have "?m + i < ?s * ?s + ?e" using m that by linarith
    from mod_mult_add_less [OF this c] wr show ?thesis by simp
  qed
  show ?thesis
  proof (cases "?m = ?s * ?s - 1")
    case True
    let ?ave = "dY ! (to + index_n (img_size L) h w) / of_nat (?e + 1)"
    have step: "wr ys (bo + ((?m + i) * ?sp + ?c)) ?ave =
                Some (ovr (\<lambda>j. j = bo + ((?m + i) * ?sp + ?c)) ?F ys)"
      if "i < Suc ?e" "length ys = length BD" for i ys
    proof -
      have "?F (bo + ((?m + i) * ?sp + ?c)) = ?ave" using bwd_val_avg [OF L hw True, of dY to i] by simp
      then show ?thesis
        using pos [OF that(1)] that(2) update_as_ovr [of ys "bo + ((?m + i) * ?sp + ?c)" ?F] by simp
    qed
    have loop: "for_loop (Suc ?e) (\<lambda>i bd. wr bd (bo + ((?m + i) * ?sp + ?c)) ?ave) BD =
                Some (ovr (\<lambda>j. \<exists>i<Suc ?e. j = bo + ((?m + i) * ?sp + ?c)) ?F BD)"
      by (rule for_loop_ovr) (rule step)
    have "(\<lambda>j. \<exists>i<Suc ?e. j = bo + ((?m + i) * ?sp + ?c)) =
          (\<lambda>j. \<exists>k. j = bo + k \<and> avg_target ?s (w_ori L) ?sp ?e h w k)"
      using True by (auto simp: avg_target_def)
    with loop True n rd show ?thesis by (simp add: bwd_avg_px_def Let_def)
  next
    case False
    let ?k = "index_o ?s (w_ori L) ?sp h w"
    have k: "bo + ?k < length BD" using pos [of 0] by (simp add: index_o_def)
    have v: "?F (bo + ?k) = dY ! (to + index_n (img_size L) h w)"
      using bwd_val_copy [OF L hw, where avg=True and dY=dY and to=to] False by simp
    have u: "BD[bo + ?k := ?F (bo + ?k)] = ovr (\<lambda>j. j = bo + ?k) ?F BD"
      by (rule update_as_ovr)
    have "(\<lambda>j. j = bo + ?k) = (\<lambda>j. \<exists>k. j = bo + k \<and> avg_target ?s (w_ori L) ?sp ?e h w k)"
      using False by (auto simp: avg_target_def)
    with u v k n rd False show ?thesis
      by (simp add: bwd_avg_px_def Let_def index_o_def)
  qed
qed

lemma bwd_copy_map_eq:
  fixes dY BD :: "'a::field buffer"
  assumes L: "layer_ok L b"
    and rd: "to + img_size L * img_size L \<le> length dY"
    and wr: "bo + scale L * scale L * count2 b \<le> length BD"
  shows "bwd_copy_map L (count2 b) dY bo to BD =
         Some (ovr (\<lambda>j. bo \<le> j \<and> j < bo + scale L * scale L * count2 b)
                   (\<lambda>j. bwd_val L (count2 b) dY to False (j - bo)) BD)"
proof -
  note d = layer_ok_dims [OF L]
  have "bwd_copy_map L (count2 b) dY bo to BD =
        Some (ovr (\<lambda>j. \<exists>k. j = bo + k \<and> (\<exists>h<img_size L. \<exists>w<img_size L.
                         k = index_o (scale L) (w_ori L) (count2 b) h w))
                  (\<lambda>j. bwd_val L (count2 b) dY to False (j - bo)) BD)"
    unfolding bwd_copy_map_def
    by (rule for_loop_plane_scatter) (rule bwd_copy_px_eq [OF L], simp_all add: rd wr)
  also have "(\<lambda>j. \<exists>k. j = bo + k \<and> (\<exists>h<img_size L. \<exists>w<img_size L.
                         k = index_o (scale L) (w_ori L) (count2 b) h w)) =
             (\<lambda>j. bo \<le> j \<and> j < bo + scale L * scale L * count2 b)"
    using index_o_cover [OF d(3,4)] d(1,2) offset_cover by simp
  finally show ?thesis .
qed

lemma bwd_avg_map_eq:
  fixes dY BD :: "'a::field buffer"
  assumes L: "layer_ok L b"
    and rd: "to + img_size L * img_size L \<le> length dY"
    and wr: "bo + (scale L * scale L + extra_maps L) * count2 b \<le> length BD"
  shows "bwd_avg_map L (count2 b) (extra_maps L) dY bo to BD =
         Some (ovr (\<lambda>j. bo \<le> j \<and> j < bo + (scale L * scale L + extra_maps L) * count2 b)
                   (\<lambda>j. bwd_val L (count2 b) dY to True (j - bo)) BD)"
proof -
  note d = layer_ok_dims [OF L]
  have "bwd_avg_map L (count2 b) (extra_maps L) dY bo to BD =
        Some (ovr (\<lambda>j. \<exists>k. j = bo + k \<and> (\<exists>h<img_size L. \<exists>w<img_size L.
                         avg_target (scale L) (w_ori L) (count2 b) (extra_maps L) h w k))
                  (\<lambda>j. bwd_val L (count2 b) dY to True (j - bo)) BD)"
    unfolding bwd_avg_map_def
    by (rule for_loop_plane_scatter) (rule bwd_avg_px_eq [OF L], simp_all add: rd wr)
  also have "(\<lambda>j. \<exists>k. j = bo + k \<and> (\<exists>h<img_size L. \<exists>w<img_size L.
                         avg_target (scale L) (w_ori L) (count2 b) (extra_maps L) h w k)) =
             (\<lambda>j. bo \<le> j \<and> j < bo + (scale L * scale L + extra_maps L) * count2 b)"
    using avg_cover [OF d(3,4)] d(1,2) offset_cover by simp
  finally show ?thesis .
qed

section \<open>One batch: the pointer walk\<close>

lemma bwd_group_eq:
  fixes dY :: "'a::field buffer" and st :: "'a ptr_state"
  assumes L: "layer_ok L b" and n: "n < group L"
    and rd: "t_off st + img_size L * img_size L \<le> length dY"
    and wr: "b_off st + (scale L * scale L + (if n = group L - 1 then extra_maps L else 0)) * count2 b
               \<le> length (buf st)"
  shows "bwd_group L (count2 b) (img_size L * img_size L) (extra_maps L) dY n st =
     Some (st\<lparr>b_off := b_off st + (if n = group L - 1 \<and> extra_maps L \<noteq> 0 then 0 else scale L * scale L * count2 b),
              t_off := t_off st + (if n = group L - 1 \<and> extra_maps L \<noteq> 0 then 0 else img_size L * img_size L),
              buf := ovr (\<lambda>j. b_off st \<le> j \<and> j < b_off st + (scale L * scale L +
                               (if n = group L - 1 \<and> extra_maps L \<noteq> 0 then extra_maps L else 0)) * count2 b)
                 (\<lambda>j. bwd_val L (count2 b) dY (t_off st) (n = group L - 1 \<and> extra_maps L \<noteq> 0) (j - b_off st))
                 (buf st)\<rparr>)"
proof (cases "n = group L - 1 \<and> extra_maps L \<noteq> 0")
  case True
  with wr have "b_off st + (scale L * scale L + extra_maps L) * count2 b \<le> length (buf st)" by simp
  from bwd_avg_map_eq [OF L rd this] True show ?thesis
    by (simp add: bwd_group_def)
next
  case False
  from wr have "b_off st + scale L * scale L * count2 b \<le> length (buf st)"
    by (simp split: if_splits add: add_mult_distrib)
  from bwd_copy_map_eq [OF L rd this] False show ?thesis
    by (auto simp: bwd_group_def)
qed

lemma bwd_batch_eq:
  fixes dY :: "'a::field buffer" and st :: "'a ptr_state"
  assumes L: "layer_ok L b" and G: "0 < group L"
    and rd: "t_off st + group L * (img_size L * img_size L) \<le> length dY"
    and wr: "b_off st + ch_ori L * count2 b \<le> length (buf st)"
  defines "d \<equiv> (if extra_maps L = 0 then 0 else 1::nat)"
  shows "for_loop (group L) (bwd_group L (count2 b) (img_size L * img_size L) (extra_maps L) dY) st =
     Some (st\<lparr>b_off := b_off st + (group L - d) * (scale L * scale L) * count2 b,
              t_off := t_off st + (group L - d) * (img_size L * img_size L),
              buf := ovr (\<lambda>j. b_off st \<le> j \<and> j < b_off st + ch_ori L * count2 b)
                       (\<lambda>j. bwd_batch_val L (count2 b) dY (t_off st) (j - b_off st)) (buf st)\<rparr>)"
proof -
  note dm = layer_ok_dims [OF L]
  let ?G = "group L" and ?q = "scale L * scale L" and ?sp = "count2 b" and ?e = "extra_maps L"
    and ?Q = "img_size L * img_size L" and ?bo = "b_off st" and ?to = "t_off st"
  let ?V = "\<lambda>j. bwd_batch_val L ?sp dY ?to (j - ?bo)"
  define Wn where "Wn i = i * (?q * ?sp) + (if i = ?G then ?e * ?sp else 0)" for i
  define T where "T i = st\<lparr>b_off := ?bo + min i (?G - d) * ?q * ?sp,
                           t_off := ?to + min i (?G - d) * ?Q,
                           buf := ovr (\<lambda>j. ?bo \<le> j \<and> j < ?bo + Wn i) ?V (buf st)\<rparr>" for i
  have C: "ch_ori L = ?G * ?q + ?e" using layer_ok_channels [OF L] .
  have r: "?e * ?sp < ?q * ?sp"
    using extra_maps_less [OF L] dm by simp
  have step: "bwd_group L ?sp ?Q ?e dY i (T i) = Some (T (Suc i))" if i: "i < ?G" for i
  proof -
    let ?avg = "i = ?G - 1 \<and> ?e \<noteq> 0"
    let ?len = "(?q + (if ?avg then ?e else 0)) * ?sp"
    have mi: "min i (?G - d) = i" using i by (simp add: d_def)
    have bo: "b_off (T i) = ?bo + i * (?q * ?sp)" and to: "t_off (T i) = ?to + i * ?Q"
      using mi by (simp_all add: T_def mult.assoc)
    have "?bo + i * (?q * ?sp) + (?q + (if i = ?G - 1 then ?e else 0)) * ?sp
          = ?bo + (i * ?q + (?q + (if i = ?G - 1 then ?e else 0))) * ?sp"
      by (simp add: algebra_simps)
    also have "\<dots> \<le> ?bo + ch_ori L * ?sp"
      using group_slab_bound [OF i, of ?q ?e] C by simp
    finally have wr_i: "b_off (T i) + (?q + (if i = ?G - 1 then ?e else 0)) * ?sp \<le> length (buf (T i))"
      using wr unfolding bo by (simp add: T_def)
    have "?to + i * ?Q + ?Q = ?to + (i * ?Q + (?Q + 0))" by simp
    also have "\<dots> \<le> ?to + ?G * ?Q" using group_slab_bound [OF i, of ?Q 0] by simp
    finally have rd_i: "t_off (T i) + ?Q \<le> length dY" using rd by (simp add: to)
    have len: "?len = ?q * ?sp + (if i = ?G - 1 then (if ?e = 0 then 0 else ?e * ?sp) else 0)"
      by (simp add: algebra_simps)
    have vals: "bwd_val L ?sp dY (t_off (T i)) ?avg (j - b_off (T i)) = ?V j"
      if j: "b_off (T i) \<le> j \<and> j < b_off (T i) + ?len" for j
    proof -
      have k: "i * (?q * ?sp) \<le> j - ?bo"
              "j - ?bo < i * (?q * ?sp) + ?q * ?sp + (if i = ?G - 1 then ?e * ?sp else 0)"
        using j len by (auto simp: bo split: if_splits)
      have "min ((j - ?bo) div (?q * ?sp)) (?G - 1) = i" by (rule slab_min_div [OF i r k])
      then show ?thesis using j by (simp add: bwd_batch_val_def Let_def bo to mult.assoc)
    qed
    have union: "(b_off (T i) \<le> j \<and> j < b_off (T i) + ?len \<or> ?bo \<le> j \<and> j < ?bo + Wn i) \<longleftrightarrow>
                 ?bo \<le> j \<and> j < ?bo + Wn (Suc i)" for j
    proof -
      have Wi: "Wn i = i * (?q * ?sp)" using i by (simp add: Wn_def)
      have WS: "Wn (Suc i) = i * (?q * ?sp) + ?len" using i by (auto simp: Wn_def algebra_simps)
      show ?thesis by (simp only: bo Wi WS) arith
    qed
    have offs: "min (Suc i) (?G - d) = (if ?avg then i else Suc i)"
      using i by (auto simp: d_def)
    have bufT: "buf (T i) = ovr (\<lambda>j. ?bo \<le> j \<and> j < ?bo + Wn i) ?V (buf st)"
      by (simp add: T_def)
    have "ovr (\<lambda>j. b_off (T i) \<le> j \<and> j < b_off (T i) + ?len)
            (\<lambda>j. bwd_val L ?sp dY (t_off (T i)) ?avg (j - b_off (T i))) (buf (T i))
          = ovr (\<lambda>j. b_off (T i) \<le> j \<and> j < b_off (T i) + ?len) ?V (buf (T i))"
      by (rule ovr_cong, simp, rule vals, assumption)
    also have "\<dots> = ovr (\<lambda>j. ?bo \<le> j \<and> j < ?bo + Wn (Suc i)) ?V (buf st)"
      unfolding bufT ovr_ovr union ..
    also have "\<dots> = buf (T (Suc i))" by (simp add: T_def)
    finally have buf': "ovr (\<lambda>j. b_off (T i) \<le> j \<and> j < b_off (T i) + ?len)
            (\<lambda>j. bwd_val L ?sp dY (t_off (T i)) ?avg (j - b_off (T i))) (buf (T i)) = buf (T (Suc i))" .
    have "b_off (T (Suc i)) = ?bo + (if ?avg then i else Suc i) * ?q * ?sp"
      unfolding T_def offs by simp
    then have bo': "b_off (T i) + (if ?avg then 0 else ?q * ?sp) = b_off (T (Suc i))"
      using bo by (cases ?avg) (auto simp: algebra_simps)
    have "t_off (T (Suc i)) = ?to + (if ?avg then i else Suc i) * ?Q"
      unfolding T_def offs by simp
    then have to': "t_off (T i) + (if ?avg then 0 else ?Q) = t_off (T (Suc i))"
      using to by (cases ?avg) (auto simp: algebra_simps)
    have "T (Suc i) = (T i)\<lparr>b_off := b_off (T (Suc i)), t_off := t_off (T (Suc i)),
                              buf := buf (T (Suc i))\<rparr>"
      by (simp add: T_def)
    then show ?thesis
      unfolding bwd_group_eq [OF L i rd_i wr_i] buf' bo' to' by simp
  qed
  have e: "(\<lambda>j. ?bo \<le> j \<and> j < ?bo + Wn 0) = (\<lambda>_. False)" using G by (auto simp: Wn_def)
  have T0: "T 0 = st" unfolding T_def e ovr_nothing by simp
  have WG: "Wn ?G = ch_ori L * ?sp" by (simp add: Wn_def C algebra_simps)
  have TG: "T ?G = st\<lparr>b_off := ?bo + (?G - d) * ?q * ?sp, t_off := ?to + (?G - d) * ?Q,
                     buf := ovr (\<lambda>j. ?bo \<le> j \<and> j < ?bo + ch_ori L * ?sp) ?V (buf st)\<rparr>"
    by (simp add: T_def WG)
  have "for_loop ?G (bwd_group L ?sp ?Q ?e dY) (T 0) = Some (T ?G)"
    by (rule for_loop_trace) (rule step)
  then show ?thesis by (simp only: T0 TG)
qed

lemma bwd_val_decomp:
  assumes L: "layer_ok L b" and p: "p < count2 b"
  shows "bwd_val L (count2 b) dY to avg (c * count2 b + p) =
     (let s = scale L; W = w_ori L; loc = min c (s * s - 1);
          v = dY ! (to + index_n (img_size L) (p div W * s + loc div s) (p mod W * s + loc mod s))
      in if avg \<and> s * s - 1 \<le> c then v / of_nat (extra_maps L + 1) else v)"
proof -
  have sp: "0 < count2 b" using p by simp
  note dm = div_mult_mod_split [OF sp p]
  have "min c (scale L * scale L - 1) * count2 b + p < count2 b * (min c (scale L * scale L - 1) + 1)"
    using p by simp
  then show ?thesis using dm
    by (simp add: bwd_val_def out_h_def out_w_def Let_def layer_ok_dims(1) [OF L, symmetric])
qed

lemma bwd_batch_val_ref:
  fixes dY :: "'a::field buffer"
  assumes L: "layer_ok L b" and G: "0 < group L"
    and i: "i < batch L * ch_ori L * count2 b"
  shows "bwd_batch_val L (count2 b) dY (i div (ch_ori L * count2 b) * (group L * (img_size L * img_size L)))
            (i mod (ch_ori L * count2 b)) = enlarge_adj L dY ! i"
proof -
  note dm = layer_ok_dims [OF L]
  let ?S = "img_size L" and ?s = "scale L" and ?sp = "count2 b" and ?e = "extra_maps L"
    and ?G = "group L" and ?C = "ch_ori L" and ?W = "w_ori L"
  let ?qq = "?s * ?s" and ?m = "i div (?C * ?sp)" and ?k = "i mod (?C * ?sp)"
  let ?c = "i div ?sp mod ?C" and ?p = "i mod ?sp"
  let ?avg = "0 < ?e \<and> (?G - 1) * ?qq + (?qq - 1) \<le> ?c"
  define n0 where "n0 = min (?c div ?qq) (?G - 1)"
  have sp: "0 < ?sp" using dm by simp
  have p: "?p < ?sp" using sp by simp
  have C: "?C = ?G * ?qq + ?e" using layer_ok_channels [OF L] .
  have qq: "0 < ?qq" using dm by simp
  have cC: "?c < ?C" using i by (cases "?C") auto
  have kdec: "?k div ?sp = ?c" "?k mod ?sp = ?p"
    by (simp_all add: decode_mod_div [of i ?C ?sp])
  have kq: "?k div (?qq * ?sp) = ?c div ?qq"
    using kdec by (simp add: div_mult2_eq mult.commute)
  have n0c: "n0 * ?qq \<le> ?c" unfolding n0_def
    by (rule order_trans [OF mult_le_mono1 [OF min.cobounded1]]) (simp add: div_times_less_eq_dividend)
  have k: "?k = ?c * ?sp + ?p" using kdec by (metis div_mult_mod_eq)
  have kn: "?k - n0 * (?qq * ?sp) = (?c - n0 * ?qq) * ?sp + ?p"
    using k n0c by (simp add: diff_mult_distrib mult.assoc)
  have lhs: "bwd_batch_val L ?sp dY (?m * (?G * (?S * ?S))) ?k =
     bwd_val L ?sp dY (?m * (?G * (?S * ?S)) + n0 * (?S * ?S)) (n0 = ?G - 1 \<and> ?e \<noteq> 0)
       ((?c - n0 * ?qq) * ?sp + ?p)"
    unfolding bwd_batch_val_def Let_def kq n0_def [symmetric] kn ..
  have spW: "h_ori L * ?W = ?sp" using L by (simp add: layer_ok_def count2_def)
  have rhs: "enlarge_adj L dY ! i =
     (let n = (if ?avg then ?G - 1 else ?c div ?qq); loc = (if ?avg then ?qq - 1 else ?c mod ?qq);
          v = dY ! (((?m * ?G + n) * ?S + (?p div ?W * ?s + loc div ?s)) * ?S + (?p mod ?W * ?s + loc mod ?s))
      in if ?avg then v / of_nat (?e + 1) else v)"
    using i unfolding enlarge_adj_def Let_def spW by (simp add: mult.assoc)
  have idx: "?m * (?G * (?S * ?S)) + n * (?S * ?S) + index_n ?S h w = ((?m * ?G + n) * ?S + h) * ?S + w"
    for n h w by (simp add: index_n_def algebra_simps)
  show ?thesis
  proof (cases ?avg)
    case True
    have "(?G - 1) * ?qq \<le> ?c" using True by linarith
    then have "?G - 1 \<le> ?c div ?qq" using qq by (simp add: less_eq_div_iff_mult_less_eq)
    then have n: "n0 = ?G - 1" by (simp add: n0_def)
    have c2: "?qq - 1 \<le> ?c - n0 * ?qq" using True unfolding n by linarith
    then have mn: "min (?c - n0 * ?qq) (?qq - 1) = ?qq - 1" by simp
    have fl: "n0 = ?G - 1 \<and> ?e \<noteq> 0" using True n by simp
    show ?thesis
      unfolding lhs rhs bwd_val_decomp [OF L p] Let_def mn if_P [OF True] if_P [OF conjI [OF fl c2]]
      by (simp add: idx n)
  next
    case False
    have "?c < ?G * ?qq"
    proof (cases "?e = 0")
      case True then show ?thesis using cC C by simp
    next
      case e: False
      then have "?c < (?G - 1) * ?qq + (?qq - 1)" using False by simp
      also have "\<dots> \<le> ?G * ?qq" using G qq by (cases ?G) simp_all
      finally show ?thesis .
    qed
    then have "?c div ?qq < ?G" using qq by (simp add: div_less_iff_less_mult)
    then have n: "n0 = ?c div ?qq" by (simp add: n0_def)
    have c2: "?c - n0 * ?qq = ?c mod ?qq" by (simp add: n minus_div_mult_eq_mod [symmetric])
    have mn: "min (?c mod ?qq) (?qq - 1) = ?c mod ?qq"
      using mod_less_divisor [OF qq, of ?c] by simp
    have fl: "\<not> ((n0 = ?G - 1 \<and> ?e \<noteq> 0) \<and> ?qq - 1 \<le> ?c mod ?qq)"
    proof
      assume a: "(n0 = ?G - 1 \<and> ?e \<noteq> 0) \<and> ?qq - 1 \<le> ?c mod ?qq"
      then have "?c = (?G - 1) * ?qq + ?c mod ?qq" using n by (metis div_mult_mod_eq)
      with a False show False by linarith
    qed
    show ?thesis
      unfolding lhs rhs bwd_val_decomp [OF L p] Let_def c2 mn if_not_P [OF False] if_not_P [OF fl]
      by (simp add: idx n)
  qed
qed

lemma diff_len_bottom: "bottom_ok L bottom \<Longrightarrow> length (diff bottom) = batch L * ch_ori L * count2 bottom"
  by (simp add: bottom_ok_def layer_ok_def count_def count2_def)

lemma diff_len_top: "top_ok L t \<Longrightarrow> length (diff t) = batch L * group L * (img_size L * img_size L)"
  by (simp add: top_ok_def count_def)

lemma Backward_cpu_eq_adj:
  fixes bottom top_blob :: "'a::field blob"
  assumes B: "bottom_ok L bottom" and T: "top_ok L top_blob" and G: "0 < group L"
    and good: "batch L \<le> 1 \<or> extra_maps L = 0"
  shows "Backward_cpu L top_blob True bottom = Some (bottom\<lparr>diff := enlarge_adj L (diff top_blob)\<rparr>)"
proof -
  have L: "layer_ok L bottom" using B by (simp add: bottom_ok_def)
  let ?dY = "diff top_blob" and ?N = "batch L" and ?G = "group L" and ?C = "ch_ori L"
    and ?Q = "img_size L * img_size L" and ?sp = "count2 bottom" and ?q = "scale L * scale L"
    and ?e = "extra_maps L"
  define d where "d = (if ?e = 0 then 0 else 1::nat)"
  define K where "K = ?C * ?sp"
  define F where "F = (\<lambda>m j. bwd_batch_val L ?sp ?dY (m * (?G * ?Q)) (j - m * K))"
  have lenB: "length (diff bottom) = ?N * K" using diff_len_bottom [OF B] by (simp add: K_def mult.assoc)
  have lenT: "length ?dY = ?N * (?G * ?Q)" using diff_len_top [OF T] by (simp add: mult.assoc)
  have C: "?C = ?G * ?q + ?e" using layer_ok_channels [OF L] .
  have run: "for_loop ?N (\<lambda>m. for_loop ?G (bwd_group L ?sp ?Q ?e ?dY))
               \<lparr>b_off = 0, t_off = 0, buf = diff bottom\<rparr> =
             Some \<lparr>b_off = ?N * ((?G - d) * ?q * ?sp), t_off = ?N * ((?G - d) * ?Q),
                   buf = ovr (\<lambda>j. j < ?N * K) (\<lambda>j. F (j div K) j) (diff bottom)\<rparr>"
  proof (rule for_loop_batches)
    fix m and st :: "'a ptr_state"
    assume m: "m < ?N" and bo: "b_off st = m * ((?G - d) * ?q * ?sp)" and to: "t_off st = m * ((?G - d) * ?Q)"
      and len: "length (buf st) = length (diff bottom)"
    have hm: "m * ((?G - d) * ?q * ?sp) = m * K" "m * ((?G - d) * ?Q) = m * (?G * ?Q)"
      using good m C by (auto simp: d_def K_def)
    have rd: "t_off st + ?G * ?Q \<le> length ?dY"
      using batch_slab_le [OF m, of "?G * ?Q"] lenT unfolding to hm(2) by simp
    have wr: "b_off st + ?C * ?sp \<le> length (buf st)"
      using batch_slab_le [OF m, of K] len lenB unfolding bo hm(1) by (simp add: K_def)
    show "for_loop ?G (bwd_group L ?sp ?Q ?e ?dY) st =
          Some (st\<lparr>b_off := m * ((?G - d) * ?q * ?sp) + (?G - d) * ?q * ?sp,
                   t_off := m * ((?G - d) * ?Q) + (?G - d) * ?Q,
                   buf := ovr (\<lambda>j. m * K \<le> j \<and> j < m * K + K) (F m) (buf st)\<rparr>)"
      using bwd_batch_eq [OF L G rd wr] unfolding d_def [symmetric] bo to hm K_def [symmetric]
      by (simp add: F_def)
  qed
  have "ovr (\<lambda>j. j < ?N * K) (\<lambda>j. F (j div K) j) (diff bottom) = enlarge_adj L ?dY"
  proof (rule nth_equalityI)
    have "h_ori L * w_ori L = ?sp" using L by (simp add: layer_ok_def count2_def)
    then show "length (ovr (\<lambda>j. j < ?N * K) (\<lambda>j. F (j div K) j) (diff bottom)) = length (enlarge_adj L ?dY)"
      using lenB by (simp add: enlarge_adj_def Let_def K_def mult.assoc)
    fix j assume "j < length (ovr (\<lambda>j. j < ?N * K) (\<lambda>j. F (j div K) j) (diff bottom))"
    then have j: "j < ?N * ?C * ?sp" and jK: "j < ?N * K" using lenB by (simp_all add: K_def mult.assoc)
    have "j - j div K * K = j mod K" by (simp add: minus_div_mult_eq_mod)
    then show "ovr (\<lambda>j. j < ?N * K) (\<lambda>j. F (j div K) j) (diff bottom) ! j = enlarge_adj L ?dY ! j"
      using jK lenB bwd_batch_val_ref [OF L G j, of ?dY] by (simp add: F_def K_def)
  qed
  with run show ?thesis by (simp add: Backward_cpu_def count2_top [OF T])
qed

lemma bwd_run:
  fixes bottom top_blob :: "'a::field blob"
  assumes B: "bottom_ok L bottom" and T: "top_ok L top_blob"
  defines "K \<equiv> group L - (if extra_maps L = 0 then 0 else 1)"
  shows "\<exists>ys. Backward_cpu L top_blob True bottom = Some (bottom\<lparr>diff := ys\<rparr>) \<and>
              length ys = length (diff bottom) \<and>
              (\<forall>j. batch L * (K * (scale L * scale L) * count2 bottom) + ch_ori L * count2 bottom
                     \<le> j + K * (scale L * scale L) * count2 bottom \<longrightarrow> j < length ys \<longrightarrow>
                   ys ! j = diff bottom ! j)"
proof -
  have L: "layer_ok L bottom" using B by (simp add: bottom_ok_def)
  let ?dY = "diff top_blob" and ?N = "batch L" and ?G = "group L" and ?C = "ch_ori L"
    and ?Q = "img_size L * img_size L" and ?sp = "count2 bottom" and ?q = "scale L * scale L"
    and ?e = "extra_maps L"
  let ?R = "K * ?q * ?sp"
  define P where "P m st \<longleftrightarrow> b_off st = m * ?R \<and> t_off st = m * (K * ?Q) \<and>
      length (buf st) = length (diff bottom) \<and>
      (\<forall>j. m * ?R + ?C * ?sp \<le> j + ?R \<longrightarrow> j < length (buf st) \<longrightarrow>
           buf st ! j = diff bottom ! j)" for m and st :: "'a ptr_state"
  have lenB: "length (diff bottom) = ?N * (?C * ?sp)" using diff_len_bottom [OF B] by (simp add: mult.assoc)
  have lenT: "length ?dY = ?N * (?G * ?Q)" using diff_len_top [OF T] by (simp add: mult.assoc)
  have "K * ?q \<le> ?C" using layer_ok_channels [OF L] by (simp add: K_def diff_mult_distrib)
  then have Cq: "?R \<le> ?C * ?sp" by (rule mult_le_mono1)
  have KG: "K * ?Q \<le> ?G * ?Q" by (simp add: K_def)
  have step: "\<exists>st'. for_loop ?G (bwd_group L ?sp ?Q ?e ?dY) st = Some st' \<and> P (Suc m) st'"
    if m: "m < ?N" and P: "P m st" for m st
  proof (cases "?G = 0")
    case True
    then have "K = 0" by (simp add: K_def)
    with True P show ?thesis by (simp add: P_def)
  next
    case G: False
    have "b_off st + ?C * ?sp \<le> m * (?C * ?sp) + ?C * ?sp"
      using P mult_le_mono2 [OF Cq, of m] by (simp add: P_def)
    also have "\<dots> \<le> length (buf st)" using batch_slab_le [OF m] lenB P by (simp add: P_def)
    finally have wr: "b_off st + ?C * ?sp \<le> length (buf st)" .
    have "t_off st + ?G * ?Q \<le> m * (?G * ?Q) + ?G * ?Q"
      using P KG by (simp add: P_def mult_le_mono2)
    also have "\<dots> \<le> length ?dY" using batch_slab_le [OF m] lenT by simp
    finally have rd: "t_off st + ?G * ?Q \<le> length ?dY" .
    let ?st' = "st\<lparr>b_off := b_off st + ?R, t_off := t_off st + K * ?Q,
                   buf := ovr (\<lambda>j. b_off st \<le> j \<and> j < b_off st + ?C * ?sp)
                       (\<lambda>j. bwd_batch_val L ?sp ?dY (t_off st) (j - b_off st)) (buf st)\<rparr>"
    have run: "for_loop ?G (bwd_group L ?sp ?Q ?e ?dY) st = Some ?st'"
      using bwd_batch_eq [OF L _ rd wr] G unfolding K_def by simp
    have "P (Suc m) ?st'"
      unfolding P_def
    proof (intro conjI allI impI)
      fix j assume j: "Suc m * ?R + ?C * ?sp \<le> j + ?R" "j < length (buf ?st')"
      then have "\<not> (b_off st \<le> j \<and> j < b_off st + ?C * ?sp)" "m * ?R + ?C * ?sp \<le> j + ?R"
        using P by (auto simp: P_def)
      with P j show "buf ?st' ! j = diff bottom ! j" by (simp add: P_def)
    qed (use P in \<open>simp_all add: P_def algebra_simps\<close>)
    with run show ?thesis by blast
  qed
  have "P 0 \<lparr>b_off = 0, t_off = 0, buf = diff bottom\<rparr>" by (simp add: P_def)
  from for_loop_inv [of ?N P "\<lambda>m. for_loop ?G (bwd_group L ?sp ?Q ?e ?dY)", OF step this]
  obtain st where "for_loop ?N (\<lambda>m. for_loop ?G (bwd_group L ?sp ?Q ?e ?dY))
                     \<lparr>b_off = 0, t_off = 0, buf = diff bottom\<rparr> = Some st" "P ?N st"
    by blast
  then show ?thesis by (auto simp: Backward_cpu_def count2_top [OF T] P_def)
qed

lemma enlarge_adj_nth:
  assumes "layer_ok L b" and "k < batch L * ch_ori L * count2 b"
  shows "enlarge_adj L dY ! k =
    (let S = img_size L; s = scale L; W = w_ori L; sp = count2 b; G = group L; e = extra_maps L;
         m = k div (ch_ori L * sp); c = k div sp mod ch_ori L; q = k mod sp;
         avg = (0 < e \<and> (G - 1) * (s * s) + (s * s - 1) \<le> c);
         n = (if avg then G - 1 else c div (s * s));
         loc = (if avg then s * s - 1 else c mod (s * s));
         h = q div W * s + loc div s; w = q mod W * s + loc mod s;
         j = ((m * G + n) * S + h) * S + w
     in if avg then dY ! j / of_nat (e + 1) else dY ! j)"
proof -
  have "h_ori L * w_ori L = count2 b" using assms(1) by (simp add: layer_ok_def count2_def)
  then show ?thesis using assms(2) unfolding enlarge_adj_def Let_def by (simp add: mult.assoc)
qed

section \<open>Properties of the backward pass\<close>

text \<open>
  C2. Refinement: for a configured layer with at least one output group and blobs of the
  configured shapes, when there is one image or no remainder map, \<open>Backward_cpu\<close>
  succeeds and writes exactly the spec's adjoint map \<open>enlarge_adj\<close> into \<open>bottom_diff\<close>.
\<close>

theorem Backward_cpu_refines:
  fixes bottom top_blob :: "'a::field blob"
  assumes "bottom_ok L bottom" and "top_ok L top_blob" and "0 < group L"
    and "batch L \<le> 1 \<or> extra_maps L = 0"
  shows "Backward_cpu L top_blob True bottom = Some (bottom\<lparr>diff := enlarge_adj L (diff top_blob)\<rparr>)"
  using assms by (rule Backward_cpu_eq_adj)

text \<open>
  The spec's scenario: the gradient \<open>[0, \<dots>, 15]\<close> of the 4x4 output goes back
  to input map \<open>c\<close> at the four pixels whose block position is \<open>c\<close>.
\<close>

theorem Backward_cpu_refines_witness:
  "Backward_cpu layer_ex (top_grad_ex :: 'a::field blob) True bottom_ex =
   Some (bottom_ex\<lparr>diff := map of_nat [0, 2, 8, 10, 1, 3, 9, 11, 4, 6, 12, 14, 5, 7, 13, 15]\<rparr>)"
proof -
  have h: "bottom_ok layer_ex (bottom_ex :: 'a blob)" "top_ok layer_ex (top_grad_ex :: 'a blob)"
          "0 < group layer_ex" "batch layer_ex \<le> 1 \<or> extra_maps layer_ex = 0"
    by (simp_all add: bottom_ok_def top_ok_def layer_ok_def count_def layer_ex_def bottom_ex_def
                      top_grad_ex_def)
  have "enlarge_adj layer_ex (diff (top_grad_ex :: 'a blob)) =
        map of_nat [0, 2, 8, 10, 1, 3, 9, 11, 4, 6, 12, 14, 5, 7, 13, 15]"
    by (simp add: enlarge_adj_def layer_ex_def top_grad_ex_def extra_maps_def Let_def upt_rec)
  with Backward_cpu_refines [OF h] show ?thesis by simp
qed

text \<open>
  C4. The remainder branch (lines 132--156) advances neither \<open>bottom_diff\<close> nor
  \<open>top_diff\<close>, so with a remainder map each image after the first writes its
  gradient one group too early, into the previous image's slab: the last gradients of
  \<open>bottom_diff\<close> are never written and keep their old values. With two images this
  contradicts the spec's adjoint.
\<close>

theorem Backward_cpu_stale_tail:
  fixes bottom top_blob :: "'a::field blob"
  assumes "bottom_ok L bottom" and "top_ok L top_blob" and "0 < extra_maps L"
  shows "\<exists>ys. Backward_cpu L top_blob True bottom = Some (bottom\<lparr>diff := ys\<rparr>) \<and>
           (\<forall>j. (batch L - 1) * ((group L - 1) * (scale L * scale L) * count2 bottom)
                 + ch_ori L * count2 bottom \<le> j \<and> j < length ys \<longrightarrow>
                ys ! j = diff bottom ! j)"
proof -
  let ?R = "(group L - 1) * (scale L * scale L) * count2 bottom"
  from bwd_run [OF assms(1,2)] assms(3) obtain ys where
    ys: "Backward_cpu L top_blob True bottom = Some (bottom\<lparr>diff := ys\<rparr>)"
    and tail: "\<forall>j. batch L * ?R + ch_ori L * count2 bottom \<le> j + ?R \<longrightarrow> j < length ys \<longrightarrow>
                  ys ! j = diff bottom ! j"
    by auto
  have "batch L * ?R + ch_ori L * count2 bottom \<le> j + ?R"
    if "(batch L - 1) * ?R + ch_ori L * count2 bottom \<le> j" for j
    using that by (cases "batch L") (simp_all add: algebra_simps)
  with ys tail show ?thesis by blast
qed

theorem Backward_cpu_stale_tail_witness:
  "Backward_cpu layer_bug (top_grad_bug :: 'a::field blob) True bottom_bug \<noteq>
   Some (bottom_bug\<lparr>diff := enlarge_adj layer_bug (diff (top_grad_bug :: 'a blob))\<rparr>)"
proof
  assume eq: "Backward_cpu layer_bug (top_grad_bug :: 'a blob) True bottom_bug =
              Some (bottom_bug\<lparr>diff := enlarge_adj layer_bug (diff (top_grad_bug :: 'a blob))\<rparr>)"
  have h: "bottom_ok layer_bug (bottom_bug :: 'a blob)" "top_ok layer_bug (top_grad_bug :: 'a blob)"
          "0 < extra_maps layer_bug"
    by (simp_all add: bottom_ok_def top_ok_def layer_ok_def count_def extra_maps_def
                      layer_bug_def bottom_bug_def top_grad_bug_def)
  from Backward_cpu_stale_tail [OF h] obtain ys where
    ys: "Backward_cpu layer_bug (top_grad_bug :: 'a blob) True bottom_bug = Some (bottom_bug\<lparr>diff := ys\<rparr>)"
    and tail: "\<forall>j. (batch layer_bug - 1) * ((group layer_bug - 1) * (scale layer_bug * scale layer_bug)
                     * count2 (bottom_bug :: 'a blob)) + ch_ori layer_bug * count2 (bottom_bug :: 'a blob)
                   \<le> j \<and> j < length ys \<longrightarrow> ys ! j = diff (bottom_bug :: 'a blob) ! j"
    by blast
  from eq ys have "(bottom_bug :: 'a blob)\<lparr>diff := ys\<rparr> =
                    bottom_bug\<lparr>diff := enlarge_adj layer_bug (diff (top_grad_bug :: 'a blob))\<rparr>" by simp
  then have "diff ((bottom_bug :: 'a blob)\<lparr>diff := ys\<rparr>) =
             diff (bottom_bug\<lparr>diff := enlarge_adj layer_bug (diff (top_grad_bug :: 'a blob))\<rparr>)"
    by (rule arg_cong)
  then have "ys = enlarge_adj layer_bug (diff (top_grad_bug :: 'a blob))" by simp
  moreover have "enlarge_adj layer_bug (diff (top_grad_bug :: 'a blob)) ! 5 = 1"
    by (simp add: enlarge_adj_def layer_bug_def top_grad_bug_def extra_maps_def Let_def)
  moreover have "length (enlarge_adj layer_bug (diff (top_grad_bug :: 'a blob))) = 10"
    by (simp add: enlarge_adj_def layer_bug_def Let_def)
  ultimately have "(1::'a) = 0"
    using tail by (simp add: layer_bug_def bottom_bug_def count2_def)
  then show False by simp
qed

text \<open>
  C8. Safety: for a configured layer and blobs of the configured shapes, every read and
  write of \<open>Backward_cpu\<close> is in range, for any number of images and any remainder, so
  the pass returns a gradient buffer of the same length; without \<open>propagate_down\<close>
  it leaves the gradient as it was.
\<close>

theorem Backward_cpu_total:
  fixes bottom top_blob :: "'a::field blob"
  assumes "bottom_ok L bottom" and "top_ok L top_blob"
  shows "\<exists>ys. Backward_cpu L top_blob propagate_down bottom = Some (bottom\<lparr>diff := ys\<rparr>) \<and>
              length ys = length (diff bottom) \<and> (\<not> propagate_down \<longrightarrow> ys = diff bottom)"
proof (cases propagate_down)
  case True
  with bwd_run [OF assms] show ?thesis by auto
next
  case False
  then show ?thesis by (simp add: Backward_cpu_def)
qed

theorem Backward_cpu_total_witness:
  "\<exists>ys. Backward_cpu layer_bug (top_grad_bug :: 'a::field blob) True bottom_bug =
          Some (bottom_bug\<lparr>diff := ys\<rparr>) \<and> length ys = 10"
proof -
  have h: "bottom_ok layer_bug (bottom_bug :: 'a blob)" "top_ok layer_bug (top_grad_bug :: 'a blob)"
    by (simp_all add: bottom_ok_def top_ok_def layer_ok_def count_def layer_bug_def bottom_bug_def
                      top_grad_bug_def)
  from Backward_cpu_total [OF h, of True] show ?thesis by (simp add: bottom_bug_def)
qed

text \<open>
  C10. Distribution: with one image and a remainder, each of the \<open>extra_maps + 1\<close>
  maps from \<open>group*scale\<^sup>2 - 1\<close> on receives, at every cell, the gradient of the last
  pixel of that cell's block in the last output map divided by \<open>extra_maps + 1\<close>.
\<close>

theorem Backward_cpu_distributes:
  fixes bottom top_blob :: "'a::field blob"
  assumes B: "bottom_ok L bottom" and T: "top_ok L top_blob" and N: "batch L = 1"
    and G: "0 < group L" and e: "0 < extra_maps L"
    and p: "p < count2 bottom" and i: "i \<le> extra_maps L"
  shows "\<exists>b'. Backward_cpu L top_blob True bottom = Some b' \<and>
     diff b' ! ((group L * (scale L * scale L) - 1 + i) * count2 bottom + p) =
     diff top_blob ! ((group L - 1) * (img_size L * img_size L) +
        index_n (img_size L) (p div w_ori L * scale L + (scale L - 1)) (p mod w_ori L * scale L + (scale L - 1)))
     / of_nat (extra_maps L + 1)"
proof -
  have L: "layer_ok L bottom" using B by (simp add: bottom_ok_def)
  note dm = layer_ok_dims [OF L]
  let ?q = "scale L * scale L" and ?sp = "count2 bottom" and ?C = "ch_ori L" and ?G = "group L"
    and ?S = "img_size L" and ?e = "extra_maps L"
  let ?c = "?G * ?q - 1 + i" and ?k = "(?G * ?q - 1 + i) * count2 bottom + p"
  have C: "?C = ?G * ?q + ?e" using layer_ok_channels [OF L] .
  have q: "0 < ?q" using dm by simp
  have Gq: "1 \<le> ?G * ?q" using G q by (simp add: Suc_le_eq)
  have c: "?c < ?C" using C i Gq by linarith
  have dec: "?k div ?sp = ?c" "?k mod ?sp = p" using div_mult_mod_split [OF _ p, of ?c] p by simp_all
  have k: "?k < ?C * ?sp" using mod_mult_add_less [OF c p] .
  have avg: "(?G - 1) * ?q + (?q - 1) \<le> ?c" using Gq G by (simp add: diff_mult_distrib)
  have spW: "h_ori L * w_ori L = ?sp" using L by (simp add: layer_ok_def count2_def)
  have m: "?k div (?C * ?sp) = 0" using k by simp
  have cm: "?k div ?sp mod ?C = ?c" using dec c by simp
  have adj: "enlarge_adj L (diff top_blob) ! ?k =
     diff top_blob ! (((?G - 1) * ?S + (p div w_ori L * scale L + (?q - 1) div scale L)) * ?S +
        (p mod w_ori L * scale L + (?q - 1) mod scale L)) / of_nat (?e + 1)"
  proof -
    have kN: "?k < batch L * ?C * ?sp" using k N by simp
    show ?thesis using avg e unfolding enlarge_adj_nth [OF L kN] Let_def m cm dec(2) by simp
  qed
  show ?thesis
    using Backward_cpu_eq_adj [OF B T G] N adj last_loc_div_mod [OF dm(3)]
    by (simp add: index_n_def algebra_simps)
qed

theorem Backward_cpu_distributes_witness:
  "\<exists>b'. Backward_cpu layer_rem (top_rem :: 'a::field blob) True bottom_rem = Some b' \<and>
        diff b' ! 4 = 4 / 2"
proof -
  have h: "bottom_ok layer_rem (bottom_rem :: 'a blob)" "top_ok layer_rem (top_rem :: 'a blob)"
          "batch layer_rem = 1" "0 < group layer_rem" "0 < extra_maps layer_rem"
          "0 < count2 (bottom_rem :: 'a blob)" "1 \<le> extra_maps layer_rem"
    by (simp_all add: bottom_ok_def top_ok_def layer_ok_def count_def count2_def extra_maps_def
                      layer_rem_def bottom_rem_def top_rem_def)
  from Backward_cpu_distributes [OF h] show ?thesis
    by (simp add: layer_rem_def bottom_rem_def top_rem_def count2_def index_n_def extra_maps_def)
qed

end
