(* ===== verification/Enlarge_Adjoint.thy ===== *)
theory Enlarge_Adjoint
  imports Enlarge_Backward
begin

text \<open>
  The two specification maps side by side. \<open>enlarge_ref\<close> (the spec's section 4.1)
  and \<open>enlarge_adj\<close> (section 4.2) are described position by position:
  \<open>adj_pos L k\<close> is the output position whose gradient input position \<open>k\<close>
  receives and \<open>adj_avg L k\<close> whether it receives a share of it; \<open>ref_src L j\<close>
  is the first input position output \<open>j\<close> is computed from and \<open>ref_avg L j\<close>
  whether it averages \<open>extra_maps + 1\<close> of them, \<open>sp\<close> apart. The two
  descriptions are inverse (\<open>adj_pos_src\<close>, \<open>ref_src_pos\<close>, \<open>adj_fiber\<close>),
  which gives the spec's round trip without remainder (\<open>enlarge_adj_ref\<close>) and
  its adjoint law \<open>\<langle>Y, dY\<rangle> = \<langle>X, dX\<rangle>\<close> (\<open>enlarge_adjoint\<close>) for
  every remainder.
\<close>

definition adj_avg :: "enlarge_layer \<Rightarrow> nat \<Rightarrow> bool" where
  "adj_avg L k =
     (let s = scale L; c = k div (h_ori L * w_ori L) mod ch_ori L
      in 0 < extra_maps L \<and> (group L - 1) * (s * s) + (s * s - 1) \<le> c)"

definition adj_pos :: "enlarge_layer \<Rightarrow> nat \<Rightarrow> nat" where
  "adj_pos L k =
     (let S = img_size L; s = scale L; W = w_ori L; sp = h_ori L * w_ori L; G = group L;
          m = k div (ch_ori L * sp); c = k div sp mod ch_ori L; q = k mod sp;
          n = (if adj_avg L k then G - 1 else c div (s * s));
          loc = (if adj_avg L k then s * s - 1 else c mod (s * s));
          h = q div W * s + loc div s; w = q mod W * s + loc mod s
      in ((m * G + n) * S + h) * S + w)"

definition ref_avg :: "enlarge_layer \<Rightarrow> nat \<Rightarrow> bool" where
  "ref_avg L j =
     (let S = img_size L; s = scale L; G = group L;
          n = j div (S * S) mod G; h = j div S mod S; w = j mod S
      in n = G - 1 \<and> 0 < extra_maps L \<and> map_ind_o s h w = s * s - 1)"

definition ref_src :: "enlarge_layer \<Rightarrow> nat \<Rightarrow> nat" where
  "ref_src L j =
     (let S = img_size L; s = scale L; W = w_ori L; sp = h_ori L * w_ori L; G = group L;
          m = j div (G * S * S); n = j div (S * S) mod G; h = j div S mod S; w = j mod S
      in (m * ch_ori L + (n * (s * s) + map_ind_o s h w)) * sp + cell_o s W h w)"

definition inner :: "'a::field list \<Rightarrow> 'a list \<Rightarrow> 'a" where
  "inner xs ys = (\<Sum>i<length xs. xs ! i * ys ! i)"

lemma enlarge_adj_pos:
  "k < batch L * ch_ori L * (h_ori L * w_ori L) \<Longrightarrow>
   enlarge_adj L dY ! k =
     (if adj_avg L k then dY ! adj_pos L k / of_nat (extra_maps L + 1) else dY ! adj_pos L k)"
  by (simp add: enlarge_adj_def adj_pos_def adj_avg_def Let_def)

lemma enlarge_ref_src:
  "j < batch L * group L * img_size L * img_size L \<Longrightarrow>
   enlarge_ref L X ! j =
     (if ref_avg L j
      then (\<Sum>i\<le>extra_maps L. X ! (ref_src L j + i * (h_ori L * w_ori L))) / of_nat (extra_maps L + 1)
      else X ! ref_src L j)"
proof -
  have e: "(a + c + i) * sp + p = (a + c) * sp + p + i * sp" for a c i sp p :: nat
    by (simp add: algebra_simps)
  assume "j < batch L * group L * img_size L * img_size L"
  then show ?thesis
    by (simp add: enlarge_ref_def ref_src_def ref_avg_def map_ind_o_def cell_o_def Let_def e)
qed

lemma adj_pos_src:
  assumes L: "layer_ok L b" and G: "0 < group L"
    and k: "k < batch L * ch_ori L * count2 b"
  shows "adj_pos L k < batch L * group L * img_size L * img_size L"
    and "ref_avg L (adj_pos L k) = adj_avg L k"
    and "k = ref_src L (adj_pos L k) +
             (if adj_avg L k then k div count2 b mod ch_ori L - (group L * (scale L * scale L) - 1) else 0)
             * count2 b"
    and "adj_avg L k \<Longrightarrow> k div count2 b mod ch_ori L - (group L * (scale L * scale L) - 1) \<le> extra_maps L"
proof -
  note dm = layer_ok_dims [OF L]
  define s where "s = scale L"
  define W where "W = w_ori L"
  define S where "S = img_size L"
  define sp where "sp = count2 b"
  define Gr where "Gr = group L"
  define C where "C = ch_ori L"
  define e where "e = extra_maps L"
  define m where "m = k div (C * sp)"
  define c where "c = k div sp mod C"
  define p where "p = k mod sp"
  define avg where "avg = adj_avg L k"
  define n where "n = (if avg then Gr - 1 else c div (s * s))"
  define loc where "loc = (if avg then s * s - 1 else c mod (s * s))"
  define k' where "k' = loc * sp + p"
  define h where "h = out_h s W sp k'"
  define w where "w = out_w s W sp k'"
  have spW: "h_ori L * w_ori L = sp" "sp = W * W" using L dm(1) by (simp_all add: layer_ok_def count2_def sp_def W_def)
  have s0: "0 < s" and W0: "0 < W" and SsW: "S = s * W" using dm by (simp_all add: s_def W_def S_def)
  have sp0: "0 < sp" using spW(2) W0 by simp
  have p: "p < sp" using sp0 by (simp add: p_def)
  have CG: "C = Gr * (s * s) + e" using layer_ok_channels [OF L] by (simp add: C_def Gr_def s_def e_def)
  have kN: "k < batch L * (C * sp)" using k by (simp add: C_def sp_def mult.assoc)
  have m: "m < batch L" using less_mult_imp_div_less [OF kN] by (simp add: m_def)
  have cC: "c < C" using kN by (cases C) (simp_all add: c_def)
  have q0: "0 < s * s" using s0 by simp
  have avg_iff: "avg \<longleftrightarrow> 0 < e \<and> (Gr - 1) * (s * s) + (s * s - 1) \<le> c"
    by (simp add: avg_def adj_avg_def Let_def spW(1) s_def Gr_def c_def C_def e_def)
  have n: "n < Gr"
  proof (cases avg)
    case True then show ?thesis using G by (simp add: n_def Gr_def)
  next
    case False
    have "c < Gr * (s * s)"
    proof (cases "e = 0")
      case True then show ?thesis using cC CG by simp
    next
      case False
      with \<open>\<not> avg\<close> avg_iff have "c < (Gr - 1) * (s * s) + (s * s - 1)" by simp
      also have "\<dots> \<le> Gr * (s * s)" using G q0 by (cases Gr) (simp_all add: Gr_def)
      finally show ?thesis .
    qed
    then show ?thesis using False q0 by (simp add: n_def div_less_iff_less_mult)
  qed
  have loc: "loc < s * s" using q0 by (simp add: loc_def)
  have k'b: "k' < s * s * (W * W)" using mod_mult_add_less [OF loc p] spW(2) by (simp add: k'_def)
  have hw: "h < S" "w < S" using out_hw_less [OF s0 W0 k'b] spW(2) SsW by (simp_all add: h_def w_def)
  have io: "index_o s W sp h w = k'" using index_o_out [OF s0 W0 k'b] spW(2) by (simp add: h_def w_def)
  have hwS: "h < s * W" "w < s * W" using hw SsW by simp_all
  have mc: "map_ind_o s h w = loc" "cell_o s W h w = p"
    using index_o_div_mod [OF s0 hwS] io div_mult_mod_split [OF sp0 p, of loc] spW(2)
    by (simp_all add: k'_def)
  have hw_def: "p div W * s + loc div s = h" "p mod W * s + loc mod s = w"
    using div_mult_mod_split [OF sp0 p, of loc]
    by (simp_all add: h_def w_def out_h_def out_w_def k'_def)
  have pos: "adj_pos L k = ((m * Gr + n) * S + h) * S + w"
    unfolding adj_pos_def Let_def spW(1) hw_def [symmetric]
    by (simp add: m_def n_def loc_def c_def p_def avg_def s_def W_def S_def Gr_def C_def)
  note dec = out_pos_decode [OF n hw, of m]
  have bound: "((m * Gr + n) * S + h) * S + w < batch L * Gr * S * S"
  proof -
    have "m * Gr + n < batch L * Gr" using mod_mult_add_less [OF m n] .
    then have "(m * Gr + n) * S + h < batch L * Gr * S" by (rule mod_mult_add_less) (rule hw(1))
    then show ?thesis by (rule mod_mult_add_less) (rule hw(2))
  qed
  then show "adj_pos L k < batch L * group L * img_size L * img_size L"
    by (simp add: pos Gr_def S_def)
  have ravg: "ref_avg L (adj_pos L k) \<longleftrightarrow> n = Gr - 1 \<and> 0 < e \<and> loc = s * s - 1"
    unfolding ref_avg_def Let_def pos S_def [symmetric] s_def [symmetric] Gr_def [symmetric]
      e_def [symmetric] dec mc ..
  define t where "t = (if avg then c - (Gr * (s * s) - 1) else 0)"
  have c_split: "c = n * (s * s) + loc + t"
  proof (cases avg)
    case True
    then have "Gr * (s * s) - 1 \<le> c" using avg_iff G q0
      by (cases Gr) (simp_all add: Gr_def algebra_simps)
    moreover have "(Gr - 1) * (s * s) + (s * s - 1) = Gr * (s * s) - 1" using G q0
      by (cases Gr) (simp_all add: Gr_def algebra_simps)
    ultimately show ?thesis using True by (simp add: n_def loc_def t_def)
  next
    case False then show ?thesis using div_mult_mod_eq [of c "s * s"] by (simp add: n_def loc_def t_def)
  qed
  show "ref_avg L (adj_pos L k) = adj_avg L k"
  proof (cases avg)
    case True then show ?thesis using ravg avg_iff by (simp add: n_def loc_def avg_def [symmetric])
  next
    case False
    have "\<not> (n = Gr - 1 \<and> 0 < e \<and> loc = s * s - 1)"
    proof
      assume a: "n = Gr - 1 \<and> 0 < e \<and> loc = s * s - 1"
      then have "c = (Gr - 1) * (s * s) + (s * s - 1)" using c_split False by (simp add: t_def)
      with a False avg_iff show False by simp
    qed
    then show ?thesis using ravg False by (simp add: avg_def)
  qed
  have spW': "h_ori L * W = sp" using spW(1) by (simp add: W_def)
  have src: "ref_src L (adj_pos L k) = (m * C + (n * (s * s) + loc)) * sp + p"
    unfolding ref_src_def Let_def pos spW(1) S_def [symmetric] s_def [symmetric] W_def [symmetric]
      Gr_def [symmetric] C_def [symmetric]
    using dec by (simp only: spW' mc)
  have k1: "k = m * (C * sp) + k mod (C * sp)" using div_mult_mod_eq [of k "C * sp"] by (simp add: m_def)
  have k2: "k mod (C * sp) = c * sp + p"
    using div_mult_mod_eq [of "k mod (C * sp)" sp] decode_mod_div [of k C sp] by (simp add: c_def p_def)
  have k3: "(m * C + (n * (s * s) + loc)) * sp + p + t * sp = m * (C * sp) + ((n * (s * s) + loc + t) * sp + p)"
    by (simp add: algebra_simps)
  have kdec: "k = (m * C + (n * (s * s) + loc)) * sp + p + t * sp"
    using k1 k2 k3 c_split by simp
  show "k = ref_src L (adj_pos L k) +
             (if adj_avg L k then k div count2 b mod ch_ori L - (group L * (scale L * scale L) - 1) else 0)
             * count2 b"
    unfolding src avg_def [symmetric] c_def [symmetric] sp_def [symmetric] C_def [symmetric]
      s_def [symmetric] Gr_def [symmetric] t_def [symmetric]
    by (rule kdec)
  show "adj_avg L k \<Longrightarrow> k div count2 b mod ch_ori L - (group L * (scale L * scale L) - 1) \<le> extra_maps L"
    using cC CG unfolding c_def [symmetric] sp_def [symmetric] C_def [symmetric]
      s_def [symmetric] Gr_def [symmetric] e_def [symmetric] by linarith
qed

lemma out_pos_recompose:
  "0 < (G::nat) \<Longrightarrow> j = ((j div (G * S * S) * G + j div (S * S) mod G) * S + j div S mod S) * S + j mod S"
proof -
  have d1: "j div (G * S * S) = j div (S * S) div G"
    using div_mult2_eq [of j "S * S" G] by (simp add: ac_simps)
  have d2: "j div (S * S) = j div S div S" by (rule div_mult2_eq)
  have a: "j div (G * S * S) * G + j div (S * S) mod G = j div (S * S)"
    unfolding d1 by (rule div_mult_mod_eq)
  have b: "j div (S * S) * S + j div S mod S = j div S"
    unfolding d2 by (rule div_mult_mod_eq)
  show ?thesis unfolding a b by simp
qed

lemma ref_src_pos:
  assumes L: "layer_ok L b" and G: "0 < group L"
    and j: "j < batch L * group L * img_size L * img_size L"
    and i: "i < (if ref_avg L j then Suc (extra_maps L) else 1)"
  shows "ref_src L j + i * count2 b < batch L * ch_ori L * count2 b"
    and "adj_pos L (ref_src L j + i * count2 b) = j"
    and "adj_avg L (ref_src L j + i * count2 b) = ref_avg L j"
proof -
  note dm = layer_ok_dims [OF L]
  define s where "s = scale L"
  define W where "W = w_ori L"
  define S where "S = img_size L"
  define sp where "sp = count2 b"
  define Gr where "Gr = group L"
  define C where "C = ch_ori L"
  define e where "e = extra_maps L"
  define m where "m = j div (Gr * S * S)"
  define n where "n = j div (S * S) mod Gr"
  define h where "h = j div S mod S"
  define w where "w = j mod S"
  define loc where "loc = map_ind_o s h w"
  define cl where "cl = cell_o s W h w"
  define ravg where "ravg = ref_avg L j"
  define c where "c = n * (s * s) + loc + i"
  define k where "k = ref_src L j + i * sp"
  have spW: "h_ori L * w_ori L = sp" "sp = W * W" using L dm(1) by (simp_all add: layer_ok_def count2_def sp_def W_def)
  have s0: "0 < s" and W0: "0 < W" and SsW: "S = s * W" using dm by (simp_all add: s_def W_def S_def)
  have sp0: "0 < sp" using spW(2) W0 by simp
  have q0: "0 < s * s" using s0 by simp
  have S0: "0 < S" using dm by (simp add: S_def)
  have CG: "C = Gr * (s * s) + e" using layer_ok_channels [OF L] by (simp add: C_def Gr_def s_def e_def)
  have jN: "j < batch L * Gr * S * S" using j by (simp add: Gr_def S_def)
  have m: "m < batch L"
    using less_mult_imp_div_less [of j "batch L" "Gr * S * S"] jN by (simp add: m_def mult.assoc)
  have n: "n < Gr" using G by (simp add: n_def Gr_def)
  have hw: "h < S" "w < S" using S0 by (simp_all add: h_def w_def)
  have hwS: "h < s * W" "w < s * W" using hw SsW by simp_all
  have loc: "loc < s * s" using map_ind_o_less [OF s0] by (simp add: loc_def)
  have cl: "cl < sp" using cell_o_less [OF hwS] spW(2) by (simp add: cl_def)
  have jrec: "j = ((m * Gr + n) * S + h) * S + w"
    using out_pos_recompose [of Gr j S] G by (simp add: m_def n_def h_def w_def Gr_def)
  have ravg_iff: "ravg \<longleftrightarrow> n = Gr - 1 \<and> 0 < e \<and> loc = s * s - 1"
    by (simp add: ravg_def ref_avg_def Let_def n_def h_def w_def loc_def s_def S_def Gr_def e_def)
  have iz: "\<not> ravg \<Longrightarrow> i = 0" using i by (simp add: ravg_def)
  have cC: "c < C"
  proof (cases ravg)
    case True
    then have "c = (Gr - 1) * (s * s) + (s * s - 1) + i" using ravg_iff by (simp add: c_def)
    moreover have "i \<le> e" using i True by (simp add: ravg_def e_def)
    moreover have "(Gr - 1) * (s * s) + (s * s - 1) < Gr * (s * s)"
      using last_slot(2) [OF _ q0] G by (simp add: Gr_def)
    ultimately show ?thesis using CG by linarith
  next
    case False
    have "n * (s * s) + loc < Gr * (s * s)" using mod_mult_add_less [OF n loc] .
    then show ?thesis using iz [OF False] CG by (simp add: c_def)
  qed
  have src: "ref_src L j = (m * C + (n * (s * s) + loc)) * sp + cl"
    by (simp add: ref_src_def Let_def m_def n_def h_def w_def loc_def cl_def s_def W_def S_def Gr_def
                  C_def spW(1))
  have kc: "k = (m * C + c) * sp + cl" by (simp add: k_def src c_def algebra_simps)
  have mC: "m * C + c < batch L * C" using mod_mult_add_less [OF m cC] .
  have kdiv: "k div sp = m * C + c" "k mod sp = cl" using div_mult_mod_split [OF sp0 cl] kc by simp_all
  have C0: "0 < C" using cC by simp
  have kC: "k div (C * sp) = k div sp div C"
    using div_mult2_eq [of k sp C] by (simp add: mult.commute)
  have kdec: "k div (C * sp) = m" "k div sp mod C = c" "k mod sp = cl"
    using kdiv div_mult_mod_split [OF C0 cC, of m] unfolding kC by simp_all
  show "ref_src L j + i * count2 b < batch L * ch_ori L * count2 b"
    using mod_mult_add_less [OF mC cl] kc by (simp add: k_def sp_def C_def)
  have aavg: "adj_avg L k \<longleftrightarrow> 0 < e \<and> (Gr - 1) * (s * s) + (s * s - 1) \<le> c"
    using kdec by (simp add: adj_avg_def Let_def spW(1) s_def Gr_def C_def e_def)
  have same: "adj_avg L k \<longleftrightarrow> ravg"
  proof
    assume a: "adj_avg L k"
    show ravg
    proof (rule ccontr)
      assume nr: "\<not> ravg"
      have "n \<le> Gr - 1" "loc \<le> s * s - 1" using n loc by simp_all
      then have le: "n * (s * s) + loc \<le> (Gr - 1) * (s * s) + (s * s - 1)"
        by (intro add_mono mult_le_mono1)
      with a aavg iz [OF nr] have eq: "n * (s * s) + loc = (Gr - 1) * (s * s) + (s * s - 1)"
        by (simp add: c_def)
      have "s * s - 1 < s * s" using q0 by simp
      from div_mult_mod_split [OF q0 loc, of n] div_mult_mod_split [OF q0 this, of "Gr - 1"] eq
      have "n = Gr - 1" "loc = s * s - 1" by simp_all
      with nr ravg_iff a aavg show False by simp
    qed
  next
    assume r: ravg
    then show "adj_avg L k" using aavg ravg_iff by (simp add: c_def)
  qed
  then show "adj_avg L (ref_src L j + i * count2 b) = ref_avg L j" by (simp add: k_def sp_def ravg_def)
  have nl: "(if adj_avg L k then Gr - 1 else c div (s * s)) = n"
           "(if adj_avg L k then s * s - 1 else c mod (s * s)) = loc"
    using same ravg_iff iz div_mult_mod_split [OF q0 loc, of n] by (auto simp: c_def)
  have io: "index_o s W sp h w = loc * sp + cl" by (simp add: index_o_def loc_def cl_def)
  have hw': "cl div W * s + loc div s = h" "cl mod W * s + loc mod s = w"
    using out_index_o [OF s0 hwS] io spW(2) div_mult_mod_split [OF sp0 cl, of loc]
    by (simp_all add: out_h_def out_w_def)
  have spW': "h_ori L * W = sp" using spW(1) by (simp add: W_def)
  have "adj_pos L k = ((m * Gr + n) * S + h) * S + w"
    unfolding adj_pos_def Let_def s_def [symmetric] W_def [symmetric] S_def [symmetric]
      Gr_def [symmetric] C_def [symmetric] spW'
    by (simp only: kdec nl hw')
  then show "adj_pos L (ref_src L j + i * count2 b) = j" using jrec by (simp add: k_def sp_def)
qed

lemma enlarge_adj_ref:
  fixes X :: "'a::field buffer"
  assumes L: "layer_ok L b" and e: "extra_maps L = 0"
    and X: "length X = batch L * ch_ori L * count2 b"
  shows "enlarge_adj L (enlarge_ref L X) = X"
proof (rule nth_equalityI)
  have sp: "h_ori L * w_ori L = count2 b" using layer_ok_count2 [OF L] by simp
  show "length (enlarge_adj L (enlarge_ref L X)) = length X"
    using X by (simp add: enlarge_adj_def Let_def sp)
  fix k assume "k < length (enlarge_adj L (enlarge_ref L X))"
  then have k: "k < batch L * ch_ori L * count2 b" using X by (simp add: enlarge_adj_def Let_def sp)
  show "enlarge_adj L (enlarge_ref L X) ! k = X ! k"
  proof (cases "group L = 0")
    case True
    then show ?thesis using k layer_ok_channels [OF L] e by simp
  next
    case False
    then have G: "0 < group L" by simp
    have na: "\<not> adj_avg L k" using e by (simp add: adj_avg_def Let_def)
    note ps = adj_pos_src [OF L G k]
    show ?thesis
      using k ps(1) ps(2) ps(3) na
      by (simp add: enlarge_adj_pos sp enlarge_ref_src mult.assoc)
  qed
qed

lemma adj_fiber:
  assumes L: "layer_ok L b" and G: "0 < group L"
    and j: "j < batch L * group L * img_size L * img_size L"
  shows "{k \<in> {..<batch L * ch_ori L * count2 b}. adj_pos L k = j} =
         (\<lambda>i. ref_src L j + i * count2 b) ` {..<(if ref_avg L j then Suc (extra_maps L) else 1)}"
proof (intro equalityI subsetI)
  fix k assume "k \<in> {k \<in> {..<batch L * ch_ori L * count2 b}. adj_pos L k = j}"
  then have k: "k < batch L * ch_ori L * count2 b" and kj: "adj_pos L k = j" by auto
  note ps = adj_pos_src [OF L G k]
  let ?t = "if adj_avg L k then k div count2 b mod ch_ori L - (group L * (scale L * scale L) - 1) else 0"
  have "?t < (if ref_avg L j then Suc (extra_maps L) else 1)"
    using ps(2) ps(4) kj by (cases "adj_avg L k") auto
  moreover have "k = ref_src L j + ?t * count2 b" using ps(3) kj by simp
  ultimately show "k \<in> (\<lambda>i. ref_src L j + i * count2 b) ` {..<(if ref_avg L j then Suc (extra_maps L) else 1)}"
    by blast
next
  fix k assume "k \<in> (\<lambda>i. ref_src L j + i * count2 b) ` {..<(if ref_avg L j then Suc (extra_maps L) else 1)}"
  then obtain i where i: "i < (if ref_avg L j then Suc (extra_maps L) else 1)"
    and k: "k = ref_src L j + i * count2 b" by auto
  show "k \<in> {k \<in> {..<batch L * ch_ori L * count2 b}. adj_pos L k = j}"
    using ref_src_pos [OF L G j i] k by simp
qed

lemma enlarge_adjoint:
  fixes X dY :: "'a::field buffer"
  assumes L: "layer_ok L b" and G: "0 < group L"
    and X: "length X = batch L * ch_ori L * count2 b"
    and Y: "length dY = batch L * group L * img_size L * img_size L"
  shows "inner (enlarge_ref L X) dY = inner X (enlarge_adj L dY)"
proof -
  let ?K = "batch L * ch_ori L * count2 b" and ?J = "batch L * group L * img_size L * img_size L"
    and ?sp = "count2 b" and ?e = "extra_maps L"
  let ?f = "\<lambda>k. X ! k * enlarge_adj L dY ! k"
  let ?mult = "\<lambda>j. if ref_avg L j then Suc ?e else 1"
  have sp: "h_ori L * w_ori L = ?sp" using layer_ok_count2 [OF L] by simp
  have sp0: "0 < ?sp" using layer_ok_dims [OF L] by simp
  have lenR: "length (enlarge_ref L X) = ?J" by (simp add: enlarge_ref_def Let_def mult.assoc)
  have into: "adj_pos L ` {..<?K} \<subseteq> {..<?J}" using adj_pos_src(1) [OF L G] by auto
  have "inner X (enlarge_adj L dY) = (\<Sum>k<?K. ?f k)" by (simp add: inner_def X)
  also have "\<dots> = (\<Sum>j<?J. \<Sum>k\<in>{k \<in> {..<?K}. adj_pos L k = j}. ?f k)"
    using sum.group [OF finite_lessThan finite_lessThan into, of ?f] by simp
  also have "\<dots> = (\<Sum>j<?J. enlarge_ref L X ! j * dY ! j)"
  proof (rule sum.cong [OF refl])
    fix j assume "j \<in> {..<?J}"
    then have j: "j < ?J" by simp
    have inj: "inj_on (\<lambda>i. ref_src L j + i * ?sp) {..<?mult j}"
      using sp0 by (auto intro: inj_onI)
    have val: "?f (ref_src L j + i * ?sp) =
               X ! (ref_src L j + i * ?sp) * (if ref_avg L j then dY ! j / of_nat (?e + 1) else dY ! j)"
      if i: "i < ?mult j" for i
      using ref_src_pos [OF L G j i] by (simp add: enlarge_adj_pos sp)
    have "(\<Sum>k\<in>{k \<in> {..<?K}. adj_pos L k = j}. ?f k) = (\<Sum>i<?mult j. ?f (ref_src L j + i * ?sp))"
      unfolding adj_fiber [OF L G j] by (rule sum.reindex [OF inj, unfolded comp_def])
    also have "\<dots> = (\<Sum>i<?mult j. X ! (ref_src L j + i * ?sp) *
                        (if ref_avg L j then dY ! j / of_nat (?e + 1) else dY ! j))"
      by (rule sum.cong [OF refl]) (simp add: val)
    also have "\<dots> = enlarge_ref L X ! j * dY ! j"
    proof (cases "ref_avg L j")
      case True
      have "(\<Sum>i<Suc ?e. X ! (ref_src L j + i * ?sp) * (dY ! j / of_nat (?e + 1))) =
            (\<Sum>i\<le>?e. X ! (ref_src L j + i * ?sp)) * (dY ! j / of_nat (?e + 1))"
        unfolding lessThan_Suc_atMost by (rule sum_distrib_right [symmetric])
      then show ?thesis using j True by (simp add: enlarge_ref_src sp del: sum.lessThan_Suc)
    next
      case False
      then show ?thesis using j by (simp add: enlarge_ref_src sp)
    qed
    finally show "(\<Sum>k\<in>{k \<in> {..<?K}. adj_pos L k = j}. ?f k) = enlarge_ref L X ! j * dY ! j" .
  qed
  also have "\<dots> = inner (enlarge_ref L X) dY" by (simp add: inner_def lenR)
  finally show ?thesis ..
qed

end
