(* ===== verification/Spec2Isabelle.thy ===== *)
theory Spec2Isabelle
  imports Enlarge_Adjoint
begin

text \<open>
  \<^bold>\<open>A verification of the Caffe \<open>EnlargeLayer\<close> (\<open>src/enlarge_layer.cpp\<close>).\<close>

  \<^emph>\<open>The program.\<close> The layer rearranges depth into space: an input blob of shape
  \<open>(N, C, h_ori, h_ori)\<close> becomes an output of shape \<open>(N, C div scale\<^sup>2, S, S)\<close> with
  \<open>S = size\<close> and \<open>scale = S div h_ori\<close>; each block of \<open>scale\<^sup>2\<close> input maps is
  unpacked into the \<open>scale x scale\<close> neighbourhoods of one output map. When
  \<open>C mod scale\<^sup>2 = extra > 0\<close>, the last position of each block of the last output
  map is the mean of the last block map and the \<open>extra\<close> maps after it. The four
  member functions are \<open>LayerSetup\<close> (lines 7--25: validation and derivation of
  \<open>scale_\<close>, \<open>group_\<close>), \<open>Reshape\<close> (27--40: re-derivation, top shape),
  \<open>Forward_cpu\<close> (42--99) and \<open>Backward_cpu\<close> (101--161). Both passes walk raw
  pointers over the flat \<open>data\<close>/\<open>diff\<close> buffers through four nested loops over
  image, output map, row and column, and advance the pointers after each map.

  \<^emph>\<open>The theories.\<close>
  \<^item> \<open>Enlarge_Prelude\<close>: buffers as lists; a pointer access \<open>p[i]\<close> as the checked
    \<open>rd\<close>/\<open>wr\<close> that fail (\<open>None\<close>) out of range, since that is undefined behaviour
    in C++; a counted loop as \<open>for_loop\<close> over \<open>option\<close>; the pointer state
    \<open>ptr_state\<close> (two offsets and the buffer written); \<open>ovr\<close>, a buffer overwritten
    on a set of positions, and the loop lemmas (\<open>for_loop_ovr\<close>, \<open>for_loop_inv\<close>, ...)
    that turn a loop of writes into one \<open>ovr\<close>.
  \<^item> \<open>Enlarge_Config\<close>: records \<open>blob_shape\<close>, \<open>blob\<close> and \<open>enlarge_layer\<close> (the
    members); \<open>LayerSetup\<close> and \<open>Reshape\<close> with every \<open>CHECK\<close> and integer-division
    trap as an \<open>Inl\<close> of \<open>config_error\<close>; \<open>Configure\<close>, the framework's
    \<open>SetUp\<close> (not in \<open>src/\<close>), modelled from the spec; the invariant \<open>layer_ok\<close> of
    a configured layer and the buffer shapes \<open>bottom_ok\<close>/\<open>top_ok\<close>.
  \<^item> \<open>Enlarge_Index\<close>: the offsets \<open>index_n\<close>, \<open>map_ind_o\<close>, \<open>cell_o\<close>, \<open>index_o\<close> of
    both passes, the remainder targets \<open>avg_target\<close>, their bounds, their inverse
    (\<open>out_h\<close>, \<open>out_w\<close>) and the partition theorems.
  \<^item> \<open>Enlarge_Forward\<close>: one definition per level of \<open>Forward_cpu\<close> (pixel copy
    \<open>fwd_copy_px\<close>, averaged pixel \<open>fwd_avg_px\<close>, map sweeps, one group \<open>fwd_group\<close>
    with its pointer advance, the pass), and the spec's map \<open>enlarge_ref\<close>.
  \<^item> \<open>Enlarge_Backward\<close>: the same for \<open>Backward_cpu\<close> (\<open>bwd_copy_px\<close>, \<open>bwd_avg_px\<close>
    with its assignment loop, ..., \<open>propagate_down\<close>), and the spec's adjoint map
    \<open>enlarge_adj\<close>.
  \<^item> \<open>Enlarge_Adjoint\<close>: the two spec maps position by position; their round trip
    and the adjoint law \<open>inner (enlarge_ref X) dY = inner X (enlarge_adj dY)\<close>.
  \<^item> this theory: the properties that span the passes and the configuration.

  \<^emph>\<open>What is shown.\<close> Each pass is proved level by level: a pixel writes one
  position (or \<open>extra + 1\<close>), a map sweep overwrites exactly its slab, a group run
  advances the pointers by the code's amounts, the batch loop keeps an invariant
  (\<open>fwd_run\<close>, \<open>bwd_run\<close>). From these: both passes are total on configured layers
  and blobs of the configured shapes (every access in range); with one image or no
  remainder they implement the spec exactly (\<open>Forward_cpu_refines\<close>,
  \<open>Backward_cpu_refines\<close>); with a remainder and several images the remainder branch,
  which advances no pointer, leaves the tail of the output (forward) and of the input
  gradient (backward) unwritten, contradicting the spec for two images
  (\<open>*_stale_tail\<close>). The averaged output is the mean of its \<open>extra + 1\<close> inputs
  and the backward pass hands each of them the same share; \<open>index_o\<close> is a bijection
  and the remainder targets a partition, so no input position is used twice (the
  spec's write-once guarantee). Forward then Backward is the identity without
  remainder and the passes are adjoint whenever they meet the spec. \<open>LayerSetup\<close> stops with the
  errors of the spec's section 7, except that a positive size below the map's height
  traps on a division by zero first; \<open>Reshape\<close> re-checks nothing, and a non-square
  bottom reshaped after set-up makes \<open>Forward_cpu\<close> read out of range.

  \<^emph>\<open>Modelling choices.\<close> \<open>Dtype\<close> is any field: rounding of \<open>float\<close>/\<open>double\<close> is
  not modelled, so the theorems are about the exact arithmetic the code approximates.
  The \<open>int\<close> members are naturals: configured sizes are positive and their products
  are assumed not to overflow (in C++ \<open>scale_*scale_\<close> on lines 18 and 37 overflows
  from \<open>scale_ = 46341\<close> on; the model computes it exactly). There are no bounds or
  fuel: every loop is a counted
  \<open>for_loop\<close>, which terminates by construction. Not modelled: the GPU entry points
  (\<open>STUB_GPU\<close>), \<open>INSTANTIATE_CLASS\<close>/\<open>REGISTER_LAYER_CLASS\<close>, the header and
  the protobuf parameter, which carry no behaviour of the layer. \<open>Configure\<close>
  assumes the framework's \<open>SetUp\<close> calls the source's \<open>LayerSetup\<close> then
  \<open>Reshape\<close>; the source spells the method \<open>LayerSetup\<close>, not Caffe's virtual
  \<open>LayerSetUp\<close>, so whether the checks run at all depends on the header outside
  \<open>src/\<close>. A layer with fewer input maps than \<open>scale\<^sup>2\<close> is accepted
  (\<open>LayerSetup_accepts_iff\<close>) with \<open>group = 0\<close>: its top blob is empty and
  neither pass writes anything.
\<close>

section \<open>Properties across the passes\<close>

text \<open>
  C6. Round trip: without remainder maps, running \<open>Backward_cpu\<close> on a gradient equal to
  the output of \<open>Forward_cpu\<close> restores the input exactly, for any number of images.
\<close>

theorem Enlarge_roundtrip:
  fixes bottom top_blob :: "'a::field blob"
  assumes B: "bottom_ok L bottom" and T: "top_ok L top_blob" and e: "extra_maps L = 0"
  shows "\<exists>t'. Forward_cpu L bottom top_blob = Some t' \<and>
              Backward_cpu L (t'\<lparr>diff := data t'\<rparr>) True bottom = Some (bottom\<lparr>diff := data bottom\<rparr>)"
proof -
  have L: "layer_ok L bottom" using B by (simp add: bottom_ok_def)
  let ?t' = "top_blob\<lparr>data := enlarge_ref L (data bottom)\<rparr>"
  have F: "Forward_cpu L bottom top_blob = Some ?t'" using Forward_cpu_eq_ref [OF B T] e by simp
  have lenR: "length (enlarge_ref L (data bottom)) = length (data top_blob)"
    using count_top [OF T] by (simp add: enlarge_ref_def Let_def mult.assoc)
  have T': "top_ok L (?t'\<lparr>diff := data ?t'\<rparr>)"
    using T lenR by (simp add: top_ok_def count_def)
  have X: "length (data bottom) = batch L * ch_ori L * count2 bottom" by (rule count_bottom [OF B])
  show ?thesis
  proof (cases "group L = 0")
    case True
    have "ch_ori L = 0" using layer_ok_channels [OF L] True e by simp
    then have "diff bottom = data bottom"
      using X diff_len_bottom [OF B] by simp
    then show ?thesis using F True by (simp add: Backward_cpu_def)
  next
    case False
    have "Backward_cpu L (?t'\<lparr>diff := data ?t'\<rparr>) True bottom =
          Some (bottom\<lparr>diff := enlarge_adj L (enlarge_ref L (data bottom))\<rparr>)"
      using Backward_cpu_eq_adj [OF B T'] False e by simp
    with F enlarge_adj_ref [OF L e X] show ?thesis by simp
  qed
qed

theorem Enlarge_roundtrip_witness:
  "\<exists>t'. Forward_cpu layer_ex bottom_ex (top_ex :: 'a::field blob) = Some t' \<and>
        Backward_cpu layer_ex (t'\<lparr>diff := data t'\<rparr>) True bottom_ex =
          Some (bottom_ex\<lparr>diff := map of_nat [0..<16]\<rparr>)"
proof -
  have h: "bottom_ok layer_ex (bottom_ex :: 'a blob)" "top_ok layer_ex (top_ex :: 'a blob)"
          "extra_maps layer_ex = 0"
    by (simp_all add: bottom_ok_def top_ok_def layer_ok_def count_def extra_maps_def layer_ex_def
                      bottom_ex_def top_ex_def)
  from Enlarge_roundtrip [OF h] show ?thesis by (simp add: bottom_ex_def)
qed

text \<open>
  C5. Adjoint law: whenever both passes meet the spec (one image or no remainder, at
  least one output map), \<open>\<langle>Forward(X), dY\<rangle> = \<langle>X, Backward(dY)\<rangle>\<close>, the
  gradient-check law of the spec's section 8, including the averaged remainder.
\<close>

theorem Enlarge_adjoint_law:
  fixes bottom top_blob :: "'a::field blob"
  assumes B: "bottom_ok L bottom" and T: "top_ok L top_blob" and G: "0 < group L"
    and good: "batch L \<le> 1 \<or> extra_maps L = 0"
  shows "\<exists>t' b'. Forward_cpu L bottom top_blob = Some t' \<and> Backward_cpu L top_blob True bottom = Some b' \<and>
                inner (data t') (diff top_blob) = inner (data bottom) (diff b')"
proof -
  have L: "layer_ok L bottom" using B by (simp add: bottom_ok_def)
  have X: "length (data bottom) = batch L * ch_ori L * count2 bottom" by (rule count_bottom [OF B])
  have Y: "length (diff top_blob) = batch L * group L * img_size L * img_size L"
    using diff_len_top [OF T] by (simp add: mult.assoc)
  show ?thesis
    using Forward_cpu_eq_ref [OF B T good] Backward_cpu_eq_adj [OF B T G good]
      enlarge_adjoint [OF L G X Y] by simp
qed

theorem Enlarge_adjoint_law_witness:
  "\<exists>t' b'. Forward_cpu layer_rem bottom_rem (top_rem :: 'a::field blob) = Some t' \<and>
           Backward_cpu layer_rem top_rem True bottom_rem = Some b' \<and>
           inner (data t') (diff (top_rem :: 'a blob)) = inner (data (bottom_rem :: 'a blob)) (diff b')"
proof -
  have h: "bottom_ok layer_rem (bottom_rem :: 'a blob)" "top_ok layer_rem (top_rem :: 'a blob)"
          "0 < group layer_rem" "batch layer_rem \<le> 1 \<or> extra_maps layer_rem = 0"
    by (simp_all add: bottom_ok_def top_ok_def layer_ok_def count_def layer_rem_def bottom_rem_def
                      top_rem_def)
  from Enlarge_adjoint_law [OF h] show ?thesis .
qed

text \<open>
  C17. A bottom blob reshaped to a non-square map after set-up is accepted by
  \<open>Reshape\<close>, and \<open>Forward_cpu\<close> on the layer it configures reads past the end of
  the bottom buffer: the spec's configuration error is never raised.
\<close>

theorem Reshape_nonsquare_oob:
  "\<exists>L1 L2 sh. LayerSetup (layer0 4) \<lparr>num = 1, channels = 4, height = 2, width = 2\<rparr> = Inr L1 \<and>
     Reshape L1 \<lparr>num = 1, channels = 4, height = 2, width = 1\<rparr> = Inr (L2, sh) \<and>
     Forward_cpu L2 \<lparr>num = 1, channels = 4, height = 2, width = 1,
                     data = replicate 8 (0::'a::field), diff = replicate 8 0\<rparr>
                    \<lparr>num = num sh, channels = channels sh, height = height sh, width = width sh,
                     data = replicate 16 0, diff = replicate 16 0\<rparr> = None"
proof -
  let ?L1 = "layer0 4\<lparr>img_size := 4, ch_ori := 4, h_ori := 2, w_ori := 2, scale := 2, group := 1\<rparr>"
  let ?L2 = "?L1\<lparr>batch := 1, w_ori := 1\<rparr>"
  let ?sh = "\<lparr>num = 1, channels = 1, height = 4, width = 4\<rparr>"
  have s: "LayerSetup (layer0 4) \<lparr>num = 1, channels = 4, height = 2, width = 2\<rparr> = Inr ?L1"
    by (simp add: LayerSetup_def layer0_def)
  have r: "Reshape ?L1 \<lparr>num = 1, channels = 4, height = 2, width = 1\<rparr> = Inr (?L2, ?sh)"
    by (simp add: Reshape_def layer0_def)
  have f: "Forward_cpu ?L2 \<lparr>num = 1, channels = 4, height = 2, width = 1,
                     data = replicate 8 (0::'a::field), diff = replicate 8 0\<rparr>
                    \<lparr>num = 1, channels = 1, height = 4, width = 4,
                     data = replicate 16 0, diff = replicate 16 0\<rparr> = None"
    by (simp add: layer0_def Forward_cpu_def fwd_group_def fwd_copy_map_def
                  fwd_copy_px_def index_n_def index_o_def map_ind_o_def cell_o_def count2_def
                  extra_maps_def for_loop_pos)
  from s r f show ?thesis by fastforce
qed

end
